theory Spec2Isabelle
  imports Complex_Main
begin

section \<open>Numbers and vectors\<close>

text \<open>
  Both scenes compute with JavaScript numbers.  They are modelled as \<^typ>\<open>real\<close>: sums,
  products, comparisons, \<open>Math.min\<close> and \<open>Math.max\<close> are the exact operations, and
  rounding and overflow are left out.  The two places where the source can produce
  \<open>NaN\<close> from finite inputs (a division \<open>0 / 0\<close> in \<open>smoothstep\<close>, and the comparison
  that reads it) are written out with \<^typ>\<open>real option\<close>, \<^term>\<open>None\<close> being \<open>NaN\<close>.
  \<open>Math.sqrt\<close> is only applied to random values and to sums of squares, which are not
  negative.

  \<open>Math.random()\<close> is an input: a function that needs random numbers takes the sequence
  \<open>rnd :: nat \<Rightarrow> real\<close> of the values the generator returns during the call, in the
  order of the calls.  The generator's contract is \<open>0 \<le> rnd k < 1\<close>.
\<close>

datatype vec3 = Vector3 (vx: real) (vy: real) (vz: real)

definition in_unit :: "(nat \<Rightarrow> real) \<Rightarrow> bool" where
  "in_unit rnd = (\<forall>k. 0 \<le> rnd k \<and> rnd k < 1)"

text \<open>\<open>THREE.MathUtils.clamp\<close> and \<open>THREE.MathUtils.lerp\<close>, as the library defines them.\<close>

definition clamp :: "real \<Rightarrow> real \<Rightarrow> real \<Rightarrow> real" where
  "clamp v lo hi = max lo (min hi v)"

definition lerp :: "real \<Rightarrow> real \<Rightarrow> real \<Rightarrow> real" where
  "lerp x y t = (1 - t) * x + t * y"

text \<open>\<open>Vector3\<close> methods used by the sources.\<close>

definition v_add :: "vec3 \<Rightarrow> vec3 \<Rightarrow> vec3" where
  "v_add a b = Vector3 (vx a + vx b) (vy a + vy b) (vz a + vz b)"

definition multiplyScalar :: "vec3 \<Rightarrow> real \<Rightarrow> vec3" where
  "multiplyScalar a k = Vector3 (vx a * k) (vy a * k) (vz a * k)"

definition addScaledVector :: "vec3 \<Rightarrow> vec3 \<Rightarrow> real \<Rightarrow> vec3" where
  "addScaledVector a v k = Vector3 (vx a + vx v * k) (vy a + vy v * k) (vz a + vz v * k)"

definition distanceTo :: "vec3 \<Rightarrow> vec3 \<Rightarrow> real" where
  "distanceTo a b =
     (let dx = vx a - vx b; dy = vy a - vy b; dz = vz a - vz b
      in sqrt (dx * dx + dy * dy + dz * dz))"

definition v_lerp :: "vec3 \<Rightarrow> vec3 \<Rightarrow> real \<Rightarrow> vec3" where
  "v_lerp a b t =
     Vector3 (vx a + (vx b - vx a) * t) (vy a + (vy b - vy a) * t) (vz a + (vz b - vz a) * t)"

definition v_length :: "vec3 \<Rightarrow> real" where
  "v_length a = sqrt (vx a * vx a + vy a * vy a + vz a * vz a)"

text \<open>\<open>normalize\<close> divides by the length, or by 1 when the length is 0.\<close>

definition normalize :: "vec3 \<Rightarrow> vec3" where
  "normalize a =
     (let l = (if v_length a = 0 then 1 else v_length a)
      in Vector3 (vx a / l) (vy a / l) (vz a / l))"

section \<open>The garden scene: terrain and grass field\<close>

subsection \<open>Terrain height\<close>

definition hash2 :: "real \<Rightarrow> real \<Rightarrow> real" where
  "hash2 x z =
     (let s = sin (x * 127.1 + z * 311.7) * 43758.5453123
      in s - of_int \<lfloor>s\<rfloor>)"

definition terrainHeight :: "real \<Rightarrow> real \<Rightarrow> real" where
  "terrainHeight x z =
     (let big = sin (x * 0.03) * 2.2 + cos (z * 0.028) * 1.8 + sin ((x + z) * 0.018) * 1.4;
          mid = sin (x * 0.12 + z * 0.06) * 0.5 + cos (z * 0.11 - x * 0.04) * 0.45;
          tiny = (hash2 (x * 0.6) (z * 0.6) - 0.5) * 0.15
      in big * 0.25 + mid * 0.22 + tiny)"

subsection \<open>The terrain functions as syntax\<close>

text \<open>
  A function of the embedding cannot but return the same value on the same arguments.
  To say that \<open>hash2\<close> and \<open>terrainHeight\<close> read nothing else, their bodies are also
  written down as syntax trees, in a small expression language that does have the means
  to read more: \<open>MathRandom\<close> is a call of \<open>Math.random()\<close>, and a variable that no
  parameter and no \<open>const\<close> of the function binds is read from the module's globals.
  The evaluator takes the random sequence \<open>rnd\<close> and the position \<open>k\<close> of the next draw
  in it, the values \<open>globals\<close> of the module's variables and the local environment
  \<open>env\<close>; it returns the value and the position of the next draw.  Operands are
  evaluated from left to right.  A call binds the callee's parameters over the globals:
  the callee does not see the caller's locals.
\<close>

datatype unop = MathSin | MathCos | MathFloor

datatype binop = Plus | Minus | Times

datatype expr =
    Num real
  | Var string
  | MathRandom
  | Unary unop expr
  | Binary binop expr expr
  | Const string expr expr
  | Call "string list" expr "expr list"

fun unary :: "unop \<Rightarrow> real \<Rightarrow> real" where
  "unary MathSin v = sin v"
| "unary MathCos v = cos v"
| "unary MathFloor v = of_int \<lfloor>v\<rfloor>"

fun binary :: "binop \<Rightarrow> real \<Rightarrow> real \<Rightarrow> real" where
  "binary Plus a b = a + b"
| "binary Minus a b = a - b"
| "binary Times a b = a * b"

fun bindParams :: "string list \<Rightarrow> real list \<Rightarrow> (string \<Rightarrow> real) \<Rightarrow> string \<Rightarrow> real" where
  "bindParams (p # ps) (v # vs) env = bindParams ps vs (env(p := v))"
| "bindParams ps vs env = env"

fun evalExpr ::
  "(nat \<Rightarrow> real) \<Rightarrow> (string \<Rightarrow> real) \<Rightarrow> (string \<Rightarrow> real) \<Rightarrow> expr \<Rightarrow> nat \<Rightarrow> real \<times> nat"
and evalArgs ::
  "(nat \<Rightarrow> real) \<Rightarrow> (string \<Rightarrow> real) \<Rightarrow> (string \<Rightarrow> real) \<Rightarrow> expr list \<Rightarrow> nat
     \<Rightarrow> real list \<times> nat"
where
  "evalExpr rnd globals env (Num c) k = (c, k)"
| "evalExpr rnd globals env (Var n) k = (env n, k)"
| "evalExpr rnd globals env MathRandom k = (rnd k, Suc k)"
| "evalExpr rnd globals env (Unary f a) k =
     (case evalExpr rnd globals env a k of (v, k1) \<Rightarrow> (unary f v, k1))"
| "evalExpr rnd globals env (Binary f a b) k =
     (case evalExpr rnd globals env a k of (va, k1) \<Rightarrow>
        case evalExpr rnd globals env b k1 of (vb, k2) \<Rightarrow> (binary f va vb, k2))"
| "evalExpr rnd globals env (Const n a b) k =
     (case evalExpr rnd globals env a k of (va, k1) \<Rightarrow>
        evalExpr rnd globals (env(n := va)) b k1)"
| "evalExpr rnd globals env (Call params body args) k =
     (case evalArgs rnd globals env args k of (vs, k1) \<Rightarrow>
        evalExpr rnd globals (bindParams params vs globals) body k1)"
| "evalArgs rnd globals env [] k = ([], k)"
| "evalArgs rnd globals env (a # as) k =
     (case evalExpr rnd globals env a k of (v, k1) \<Rightarrow>
        case evalArgs rnd globals env as k1 of (vs, k2) \<Rightarrow> (v # vs, k2))"

text \<open>The bodies of \<open>function hash2(x, z)\<close> and \<open>function terrainHeight(x, z)\<close>.\<close>

definition hash2Body :: expr where
  "hash2Body =
     Const ''s''
       (Binary Times
          (Unary MathSin (Binary Plus (Binary Times (Var ''x'') (Num 127.1))
                                      (Binary Times (Var ''z'') (Num 311.7))))
          (Num 43758.5453123))
       (Binary Minus (Var ''s'') (Unary MathFloor (Var ''s'')))"

definition terrainHeightBody :: expr where
  "terrainHeightBody =
     Const ''big''
       (Binary Plus
          (Binary Plus
             (Binary Times (Unary MathSin (Binary Times (Var ''x'') (Num 0.03))) (Num 2.2))
             (Binary Times (Unary MathCos (Binary Times (Var ''z'') (Num 0.028))) (Num 1.8)))
          (Binary Times
             (Unary MathSin (Binary Times (Binary Plus (Var ''x'') (Var ''z'')) (Num 0.018)))
             (Num 1.4)))
    (Const ''mid''
       (Binary Plus
          (Binary Times
             (Unary MathSin (Binary Plus (Binary Times (Var ''x'') (Num 0.12))
                                         (Binary Times (Var ''z'') (Num 0.06))))
             (Num 0.5))
          (Binary Times
             (Unary MathCos (Binary Minus (Binary Times (Var ''z'') (Num 0.11))
                                          (Binary Times (Var ''x'') (Num 0.04))))
             (Num 0.45)))
    (Const ''tiny''
       (Binary Times
          (Binary Minus
             (Call [''x'', ''z''] hash2Body
                [Binary Times (Var ''x'') (Num 0.6), Binary Times (Var ''z'') (Num 0.6)])
             (Num 0.5))
          (Num 0.15))
    (Binary Plus
       (Binary Plus (Binary Times (Var ''big'') (Num 0.25))
                    (Binary Times (Var ''mid'') (Num 0.22)))
       (Var ''tiny''))))"

text \<open>
  For contrast, the first line of the loop of \<open>createGrassField\<close>,
  \<open>Math.random() * Math.PI * 2\<close>, which does draw.
\<close>

definition angleDraw :: expr where
  "angleDraw = Binary Times (Binary Times MathRandom (Num pi)) (Num 2)"

subsection \<open>Grass field\<close>

text \<open>
  \<open>smoothstep\<close> divides by \<open>edge1 - edge0\<close>.  When the edges coincide the quotient is
  \<open>+Infinity\<close> (clamped to 1), \<open>-Infinity\<close> (clamped to 0) or, at \<open>x = edge0\<close>, \<open>NaN\<close>,
  which the clamp and the polynomial hand on.
\<close>

definition smoothstep :: "real \<Rightarrow> real \<Rightarrow> real \<Rightarrow> real option" where
  "smoothstep edge0 edge1 x =
     (if edge1 = edge0 then
        (if x = edge0 then None else if edge0 < x then Some 1 else Some 0)
      else
        (let t = clamp ((x - edge0) / (edge1 - edge0)) 0 1
         in Some (t * t * (3 - 2 * t))))"

text \<open>\<open>a > b\<close> where \<open>b\<close> may be \<open>NaN\<close>: a comparison with \<open>NaN\<close> is false.\<close>

definition js_gt :: "real \<Rightarrow> real option \<Rightarrow> bool" where
  "js_gt a b = (case b of None \<Rightarrow> False | Some b' \<Rightarrow> b' < a)"

text \<open>
  One instance of an \<open>InstancedMesh\<close>: the position, Euler rotation and uniform scale
  that \<open>dummy.updateMatrix()\<close> composes into the instance matrix.
\<close>

record blade =
  ipos :: vec3
  irot :: vec3
  iscale :: real

record grassOptions =
  count :: nat
  radius :: real
  moundCenter :: vec3
  moundRadius :: real
  noGrassPad :: real
  thinOuter :: real
  minKeep :: real

text \<open>The defaults of the destructured argument, and the call the scene makes.\<close>

definition grassDefaults :: grassOptions where
  "grassDefaults =
     \<lparr>count = 35000, radius = 70, moundCenter = Vector3 0 0 0, moundRadius = 3.2,
      noGrassPad = 0.6, thinOuter = 10.0, minKeep = 0.12\<rparr>"

definition MOUND_POS :: vec3 where
  "MOUND_POS = Vector3 0 (terrainHeight 0 0) 0"

definition sceneGrassOptions :: grassOptions where
  "sceneGrassOptions =
     \<lparr>count = 35000, radius = 70, moundCenter = MOUND_POS, moundRadius = 3.2,
      noGrassPad = 0.6, thinOuter = 7.0, minKeep = 0.10\<rparr>"

text \<open>
  The horizontal distance \<open>d\<close> of the loop body, from a point \<open>(x, z)\<close> to the mound centre.
\<close>

definition groundDist :: "vec3 \<Rightarrow> real \<Rightarrow> real \<Rightarrow> real" where
  "groundDist c x z =
     (let dx = x - vx c; dz = z - vz c in sqrt (dx * dx + dz * dz))"

text \<open>
  The loop of \<open>createGrassField\<close>.  The first numeric argument counts the iterations
  still to run, \<open>k\<close> is the number of random values drawn so far, and \<open>kept\<close> holds the
  instance matrices written so far: \<open>setMatrixAt(kept, ...); kept++\<close> appends.  A
  \<open>continue\<close> is a recursive call that leaves \<open>kept\<close> as it is.
\<close>

fun grassFieldLoop ::
  "(nat \<Rightarrow> real) \<Rightarrow> grassOptions \<Rightarrow> nat \<Rightarrow> nat \<Rightarrow> blade list \<Rightarrow> blade list" where
  "grassFieldLoop rnd opts 0 k kept = kept"
| "grassFieldLoop rnd opts (Suc n) k kept =
     (let noGrassRadius = moundRadius opts + noGrassPad opts;
          a = rnd k * pi * 2;
          rr = sqrt (rnd (k + 1)) * radius opts;
          x = cos a * rr;
          z = sin a * rr;
          d = groundDist (moundCenter opts) x z
      in if d < noGrassRadius then grassFieldLoop rnd opts n (k + 2) kept
         else
           (let keepProb = map_option (lerp (minKeep opts) 1.0)
                             (smoothstep noGrassRadius (thinOuter opts) d)
            in if js_gt (rnd (k + 2)) keepProb then grassFieldLoop rnd opts n (k + 3) kept
               else
                 (let y = terrainHeight x z;
                      yaw = rnd (k + 3) * pi * 2;
                      tilt = (rnd (k + 4) - 0.5) * 0.15;
                      s = 0.6 + rnd (k + 5) * 0.65
                  in grassFieldLoop rnd opts n (k + 6)
                       (kept @ [\<lparr>ipos = Vector3 x y z, irot = Vector3 tilt yaw 0,
                                  iscale = s\<rparr>]))))"

text \<open>
  \<open>createGrassField\<close> returns the instanced mesh; its drawn instances are the first
  \<open>inst.count = kept\<close> matrices, the list the loop built.
\<close>

definition createGrassField :: "(nat \<Rightarrow> real) \<Rightarrow> grassOptions \<Rightarrow> blade list" where
  "createGrassField rnd opts = grassFieldLoop rnd opts (count opts) 0 []"


section \<open>The dandelion scene\<close>

subsection \<open>Scene objects and state\<close>

text \<open>
  Scene objects are compared by identity (\<open>target === activeMound\<close>).  A mound mesh is
  named by its index in the array \<open>mounds\<close>, which only grows; a seed mesh by the \<open>id\<close>
  that the library gives every object it creates, from a counter (\<open>nextId\<close> below).
\<close>

datatype obj =
    ObjHemi | ObjSunLight | ObjGround | ObjMound nat | ObjGrass | ObjCloudLeft | ObjCloudRight
  | ObjSun | ObjRain | ObjPlant | ObjBud | ObjSeed nat

text \<open>\<open>userData.type\<close>, set on mounds, clouds, the sun and seeds only.\<close>

fun userDataType :: "obj \<Rightarrow> string option" where
  "userDataType (ObjMound _) = Some ''mound''"
| "userDataType ObjCloudLeft = Some ''cloud''"
| "userDataType ObjCloudRight = Some ''cloud''"
| "userDataType ObjSun = Some ''sun''"
| "userDataType (ObjSeed _) = Some ''seed''"
| "userDataType _ = None"

text \<open>
  A colour is kept as the expression that produced it: a CSS hex string, or
  \<open>a.lerp(b, t)\<close>.
\<close>

datatype color = Hex string | Mix color color real

record mound =
  mpos :: vec3
  mcolor :: color
  mroughness :: real

record seed =
  mesh :: nat
  position :: vec3
  velocity :: vec3
  active :: bool
  landed :: bool

text \<open>
  One rain particle: the three entries of \<open>rainPos\<close> and the entry of \<open>rainVel\<close> with its
  index.
\<close>

record particle =
  px :: real
  py :: real
  pz :: real
  fall :: real

text \<open>
  The module's mutable state: the four flags of \<open>state\<close>, the module-level variables,
  and the properties of scene objects, of the rain material, of the button and of the
  status element that the handlers and the frame loop write.  \<open>followedSeed\<close> refers to
  an entry of \<open>seeds\<close> and is kept as its index; \<open>activeMound\<close> as an index into
  \<open>mounds\<close>.  The camera's orientation, the grass shader's time uniform and the pointer
  and raycaster scratch objects are presentation only and are left out.
\<close>

record world =
  planted :: bool
  watered :: bool
  blooming :: bool
  puff :: bool
  rainActive :: bool
  wetness :: real
  growth :: real
  followedSeed :: "nat option"
  activeMound :: nat
  mounds :: "mound list"
  seeds :: "seed list"
  dragging :: "obj option"
  rainOpacity :: real
  rainButtonDisabled :: bool
  status :: string
  plantVisible :: bool
  puffVisible :: bool
  budVisible :: bool
  stemScaleY :: real
  stemPosY :: real
  plantPos :: vec3
  budColor :: color
  cloudLeftPos :: vec3
  cloudRightPos :: vec3
  rainParticles :: "particle list"
  scene :: "obj list"
  nextId :: nat
  cameraPos :: vec3

definition windDirection :: vec3 where
  "windDirection = normalize (Vector3 1 0 0.5)"

definition rainCount :: nat where
  "rainCount = 1700"

definition setStatus :: "string \<Rightarrow> world \<Rightarrow> world" where
  "setStatus text s = s\<lparr>status := text\<rparr>"

text \<open>\<open>addMound\<close> returns the new mesh, here its index, with the state.\<close>

definition addMound :: "vec3 \<Rightarrow> world \<Rightarrow> nat \<times> world" where
  "addMound pos s =
     (length (mounds s),
      s\<lparr>mounds := mounds s @ [\<lparr>mpos = pos, mcolor = Hex ''#795641'', mroughness = 0.95\<rparr>],
        scene := scene s @ [ObjMound (length (mounds s))],
        nextId := nextId s + 1\<rparr>)"

subsection \<open>Grass of the dandelion scene\<close>

text \<open>
  \<open>addGrass\<close> writes one matrix for every index below \<open>count = 14000\<close>; a sample that
  falls within 2.6 of the mound is moved to \<open>(999, -999, 999)\<close>.  The rotation of
  \<open>dummy\<close> about the other two axes is never set and stays 0.
\<close>

fun addGrassLoop :: "(nat \<Rightarrow> real) \<Rightarrow> vec3 \<Rightarrow> nat \<Rightarrow> nat \<Rightarrow> blade list \<Rightarrow> blade list" where
  "addGrassLoop rnd m 0 k done = done"
| "addGrassLoop rnd m (Suc n) k done =
     (let r = sqrt (rnd k) * 35;
          a = rnd (k + 1) * pi * 2;
          x = cos a * r;
          z = sin a * r;
          exclusion = distanceTo m (Vector3 x (vy m) z);
          p = (if exclusion < 2.6 then Vector3 999 (- 999) 999 else Vector3 x 0 z);
          ry = rnd (k + 2) * pi;
          s = 0.65 + rnd (k + 3) * 0.8
      in addGrassLoop rnd m n (k + 4) (done @ [\<lparr>ipos = p, irot = Vector3 0 ry 0, iscale = s\<rparr>]))"

definition addGrass :: "(nat \<Rightarrow> real) \<Rightarrow> vec3 \<Rightarrow> blade list" where
  "addGrass rnd m = addGrassLoop rnd m 14000 0 []"

text \<open>The mound that is active when the scene calls \<open>addGrass()\<close>.\<close>

definition firstMoundPos :: vec3 where
  "firstMoundPos = Vector3 0 0.45 0"

subsection \<open>Cycle reset, rain start, dispersal\<close>

definition resetCycle :: "nat option \<Rightarrow> world \<Rightarrow> world" where
  "resetCycle newMound s =
     (let s1 = s\<lparr>planted := False, watered := False, blooming := False, puff := False,
                 rainActive := False, wetness := 0, growth := 0, followedSeed := None,
                 rainOpacity := 0, rainButtonDisabled := False\<rparr>;
          s2 = (case newMound of None \<Rightarrow> s1 | Some m \<Rightarrow> s1\<lparr>activeMound := m\<rparr>);
          s3 = s2\<lparr>plantVisible := False, puffVisible := False, budVisible := False,
                  stemScaleY := 0.01, stemPosY := 0.06\<rparr>;
          s4 = s3\<lparr>plantPos := mpos (mounds s3 ! activeMound s3)\<rparr>
      in setStatus ''Click the mound to plant a seed.'' s4)"

definition startRain :: "world \<Rightarrow> world" where
  "startRain s =
     (if \<not> planted s \<or> rainActive s \<or> watered s then s
      else setStatus ''Rain nourishes the mound. Now click the sun.''
             (s\<lparr>rainActive := True, rainButtonDisabled := True\<rparr>))"

text \<open>
  One pass of the loop of \<open>disperseSeeds\<close>, pass \<open>i\<close>: the four random values are drawn
  in the order the source evaluates them.
\<close>

definition spawnSeed :: "(nat \<Rightarrow> real) \<Rightarrow> nat \<Rightarrow> world \<Rightarrow> world" where
  "spawnSeed rnd i s =
     (let p = v_add (plantPos s) (Vector3 0 1.8 0);
          vel = v_add (Vector3 ((rnd (4 * i) - 0.5) * 1.1)
                               (1.4 + rnd (4 * i + 1) * 1.7)
                               ((rnd (4 * i + 2) - 0.5) * 1.1))
                      (multiplyScalar windDirection (0.7 + rnd (4 * i + 3) * 0.6))
      in s\<lparr>scene := scene s @ [ObjSeed (nextId s)],
           seeds := seeds s @ [\<lparr>mesh = nextId s, position = p, velocity = vel,
                                 active = True, landed = False\<rparr>],
           nextId := nextId s + 1\<rparr>)"

fun disperseLoop :: "(nat \<Rightarrow> real) \<Rightarrow> nat \<Rightarrow> nat \<Rightarrow> world \<Rightarrow> world" where
  "disperseLoop rnd 0 i s = s"
| "disperseLoop rnd (Suc n) i s = disperseLoop rnd n (i + 1) (spawnSeed rnd i s)"

definition disperseSeeds :: "(nat \<Rightarrow> real) \<Rightarrow> world \<Rightarrow> world" where
  "disperseSeeds rnd s =
     (if \<not> puff s then s
      else setStatus ''Seeds dispersed! Click a seed to follow it.''
             (disperseLoop rnd 36 0 (s\<lparr>puff := False, puffVisible := False,
                                        budVisible := False\<rparr>)))"


subsection \<open>Input handlers\<close>

text \<open>
  The objects handed to the raycaster on a pointer-down.  Ray picking itself belongs to
  the rendering library: a pointer-down event carries its result, the nearest object
  hit (\<open>hits[0].object\<close>) or nothing.
\<close>

definition pickCandidates :: "world \<Rightarrow> obj list" where
  "pickCandidates s =
     [ObjMound (activeMound s), ObjSun, ObjCloudLeft, ObjCloudRight, ObjBud]
       @ map (\<lambda>sd. ObjSeed (mesh sd)) (seeds s)"

text \<open>\<open>seeds.find((s) => s.mesh === target)\<close>: the first entry with that mesh, as its index.\<close>

fun findSeed :: "obj \<Rightarrow> seed list \<Rightarrow> nat option" where
  "findSeed target [] = None"
| "findSeed target (sd # sds) =
     (if ObjSeed (mesh sd) = target then Some 0 else map_option Suc (findSeed target sds))"

definition pointerdown :: "obj option \<Rightarrow> (nat \<Rightarrow> real) \<Rightarrow> world \<Rightarrow> world" where
  "pointerdown hit rnd s =
     (case hit of
        None \<Rightarrow> s
      | Some target \<Rightarrow>
          if userDataType target = Some ''cloud'' then s\<lparr>dragging := Some target\<rparr>
          else if target = ObjMound (activeMound s) \<and> \<not> planted s then
            setStatus ''Great. Make it rain (button or drag clouds together).''
              (s\<lparr>planted := True, plantVisible := True, stemScaleY := 0.01,
                 stemPosY := 0.06, budVisible := False\<rparr>)
          else if target = ObjSun \<and> watered s \<and> \<not> puff s then
            setStatus ''Sunlight helps it grow. Wait for bloom...'' (s\<lparr>blooming := True\<rparr>)
          else
            (case findSeed target (seeds s) of
               Some i \<Rightarrow>
                 setStatus ''Following seed... it will start a new cycle where it lands.''
                   (s\<lparr>followedSeed := Some i\<rparr>)
             | None \<Rightarrow> if target = ObjBud \<and> puff s then disperseSeeds rnd s else s))"

definition pointerup :: "world \<Rightarrow> world" where
  "pointerup s = s\<lparr>dragging := None\<rparr>"

text \<open>
  A pointer-move carries the point where the pointer's ray meets the cloud plane, if it
  does.  Only the two clouds are ever stored in \<open>dragging\<close>.
\<close>

definition dragTo :: "vec3 \<Rightarrow> vec3 \<Rightarrow> vec3" where
  "dragTo hitPoint c = Vector3 (clamp (vx hitPoint) (- 10) 10) (vy c) (clamp (vz hitPoint) (- 3) 3)"

definition pointermove :: "vec3 option \<Rightarrow> world \<Rightarrow> world" where
  "pointermove hit s =
     (case dragging s of
        None \<Rightarrow> s
      | Some d \<Rightarrow>
          (let s1 = (case hit of
                       None \<Rightarrow> s
                     | Some hitPoint \<Rightarrow>
                         if d = ObjCloudLeft then s\<lparr>cloudLeftPos := dragTo hitPoint (cloudLeftPos s)\<rparr>
                         else if d = ObjCloudRight then
                           s\<lparr>cloudRightPos := dragTo hitPoint (cloudRightPos s)\<rparr>
                         else s)
           in if distanceTo (cloudLeftPos s1) (cloudRightPos s1) < 2.5 then startRain s1
              else s1))"

subsection \<open>Per-frame updates\<close>

text \<open>
  The particle loop of \<open>updateRain\<close>: \<open>i\<close> is the particle's index, \<open>k\<close> the number of
  random values drawn so far, \<open>m\<close> the position of the active mound.
\<close>

fun rainLoop ::
  "(nat \<Rightarrow> real) \<Rightarrow> real \<Rightarrow> real \<Rightarrow> vec3 \<Rightarrow> nat \<Rightarrow> nat \<Rightarrow> particle list \<Rightarrow> particle list" where
  "rainLoop rnd dt elapsed m i k [] = []"
| "rainLoop rnd dt elapsed m i k (p # ps) =
     (let x = vx m + (rnd k - 0.5) * 3.2 + vx windDirection * sin (elapsed + real i) * 0.03;
          y = py p - fall p * dt;
          z = vz m + (rnd (k + 1) - 0.5) * 3.2
                + vz windDirection * cos (elapsed + real i * 0.4) * 0.03
      in if y < 0.6 then
           p\<lparr>px := x, py := 6 + rnd (k + 2) * 5, pz := z\<rparr>
             # rainLoop rnd dt elapsed m (i + 1) (k + 3) ps
         else p\<lparr>px := x, py := y, pz := z\<rparr> # rainLoop rnd dt elapsed m (i + 1) (k + 2) ps)"

definition updateRain :: "(nat \<Rightarrow> real) \<Rightarrow> real \<Rightarrow> real \<Rightarrow> world \<Rightarrow> world" where
  "updateRain rnd dt elapsed s =
     (let s1 = (if rainActive s then
                  (let w = min 1 (wetness s + dt * 0.25)
                   in s\<lparr>wetness := w, rainOpacity := min 0.9 w\<rparr>)
                else s\<lparr>rainOpacity := max 0 (rainOpacity s - dt * 0.8)\<rparr>);
          s2 = (if 1 \<le> wetness s1 \<and> \<not> watered s1 then
                  setStatus ''Now click the sun to trigger growth.''
                    (s1\<lparr>watered := True, rainActive := False\<rparr>)
                else s1);
          m = mounds s2 ! activeMound s2;
          s3 = s2\<lparr>rainParticles := rainLoop rnd dt elapsed (mpos m) 0 0 (rainParticles s2)\<rparr>
      in s3\<lparr>mounds := (mounds s3)[activeMound s3 :=
                m\<lparr>mcolor := Mix (Hex ''#795641'') (Hex ''#50392b'') (wetness s3),
                  mroughness := lerp 0.95 0.35 (wetness s3)\<rparr>]\<rparr>)"

definition updateGrowth :: "real \<Rightarrow> world \<Rightarrow> world" where
  "updateGrowth dt s =
     (if \<not> blooming s then s
      else
        (let g = min 1 (growth s + dt * 0.22);
             s1 = s\<lparr>growth := g, stemScaleY := max 0.05 g, stemPosY := 0.06 + g * 0.64,
                    budVisible := (0.35 < g)\<rparr>;
             s2 = (if 0.7 < g then s1\<lparr>budColor := Hex ''#ffe77a''\<rparr> else s1)
         in if 1 \<le> g then
              setStatus ''Dandelion puff ready. Click the flower to disperse seeds.''
                (s2\<lparr>blooming := False, puff := True, puffVisible := True, budVisible := True,
                    budColor := Hex ''#ffffff''\<rparr>)
            else s2))"

text \<open>
  The integration step of \<open>updateSeeds\<close> for one seed: wind drift, gravity, then the
  move.  The result is the seed before the ground test.
\<close>

definition integrate :: "real \<Rightarrow> real \<Rightarrow> seed \<Rightarrow> seed" where
  "integrate dt elapsed sd =
     (let v1 = addScaledVector (velocity sd) windDirection
                 (dt * (0.2 + sin (elapsed + real (mesh sd)) * 0.2));
          v2 = Vector3 (vx v1) (vy v1 - 1.2 * dt) (vz v1)
      in sd\<lparr>velocity := v2, position := addScaledVector (position sd) v2 dt\<rparr>)"

text \<open>The body of the loop of \<open>updateSeeds\<close>, for the seed at index \<open>i\<close>.\<close>

definition seedStep :: "real \<Rightarrow> real \<Rightarrow> world \<Rightarrow> nat \<Rightarrow> world" where
  "seedStep dt elapsed s i =
     (let sd = seeds s ! i
      in if \<not> active sd then s
         else if landed sd then s
         else
           (let sd1 = integrate dt elapsed sd
            in if vy (position sd1) \<le> 0.45 then
                 (let p = Vector3 (vx (position sd1)) 0.45 (vz (position sd1));
                      s1 = s\<lparr>seeds := (seeds s)[i := sd1\<lparr>position := p,
                                 velocity := Vector3 0 0 0, landed := True\<rparr>]\<rparr>
                  in if followedSeed s1 = Some i then
                       (let (newMound, s2) = addMound (Vector3 (vx p) 0.45 (vz p)) s1
                        in setStatus ''A new mound formed. Click it to plant again.''
                             (resetCycle (Some newMound) s2))
                     else s1)
               else s\<lparr>seeds := (seeds s)[i := sd1]\<rparr>))"

definition updateSeeds :: "real \<Rightarrow> real \<Rightarrow> world \<Rightarrow> world" where
  "updateSeeds dt elapsed s = foldl (seedStep dt elapsed) s [0..<length (seeds s)]"

text \<open>
  One call of \<open>animate\<close>: \<open>delta\<close> and \<open>elapsed\<close> are what the clock returns, \<open>rnd\<close> the
  random values drawn by \<open>updateRain\<close>.
\<close>

definition animate :: "real \<Rightarrow> real \<Rightarrow> (nat \<Rightarrow> real) \<Rightarrow> world \<Rightarrow> world" where
  "animate delta elapsed rnd s =
     (let dt = min delta 0.033;
          cl = cloudLeftPos s;
          cr = cloudRightPos s;
          s1 = s\<lparr>cloudLeftPos := Vector3 (vx cl + sin (elapsed * 0.25) * 0.002) (vy cl) (vz cl),
                 cloudRightPos := Vector3 (vx cr - sin (elapsed * 0.22) * 0.002) (vy cr) (vz cr)\<rparr>;
          s2 = updateRain rnd dt elapsed s1;
          s3 = updateGrowth dt s2;
          s4 = updateSeeds dt elapsed s3;
          target = (case followedSeed s4 of
                      Some i \<Rightarrow> position (seeds s4 ! i)
                    | None \<Rightarrow> mpos (mounds s4 ! activeMound s4));
          cameraTarget = v_add target (Vector3 7.5 5.5 8)
      in s4\<lparr>cameraPos := v_lerp (cameraPos s4) cameraTarget 0.02\<rparr>)"

subsection \<open>Start-up, events and reachable states\<close>

text \<open>The rain particles as the start-up loop fills them, four random values each.\<close>

definition initialRain :: "(nat \<Rightarrow> real) \<Rightarrow> particle list" where
  "initialRain rnd =
     map (\<lambda>i. \<lparr>px = (rnd (4 * i) - 0.5) * 4, py = 4 + rnd (4 * i + 1) * 7,
                pz = (rnd (4 * i + 2) - 0.5) * 4, fall = 6 + rnd (4 * i + 3) * 8\<rparr>)
       [0..<rainCount]"

text \<open>
  The state built by the module's top-level code before its closing \<open>resetCycle()\<close>.
  \<open>id0\<close> is the library's object counter at that point; the text of the status element
  and the button's state come from the page and are overwritten by \<open>resetCycle\<close>.
\<close>

definition loaded :: "nat \<Rightarrow> (nat \<Rightarrow> real) \<Rightarrow> world" where
  "loaded id0 rnd =
     \<lparr>planted = False, watered = False, blooming = False, puff = False,
      rainActive = False, wetness = 0, growth = 0, followedSeed = None,
      activeMound = 0,
      mounds = [\<lparr>mpos = firstMoundPos, mcolor = Hex ''#795641'', mroughness = 0.95\<rparr>],
      seeds = [], dragging = None, rainOpacity = 0, rainButtonDisabled = False,
      status = [], plantVisible = False, puffVisible = False, budVisible = True,
      stemScaleY = 1, stemPosY = 1.05, plantPos = firstMoundPos,
      budColor = Hex ''#d6c555'',
      cloudLeftPos = Vector3 (- 5.8) 8.5 0, cloudRightPos = Vector3 5.8 8.5 0.8,
      rainParticles = initialRain rnd,
      scene = [ObjHemi, ObjSunLight, ObjGround, ObjMound 0, ObjGrass, ObjCloudLeft,
               ObjCloudRight, ObjSun, ObjRain, ObjPlant],
      nextId = id0, cameraPos = Vector3 10 7.5 12\<rparr>"

definition initial :: "nat \<Rightarrow> (nat \<Rightarrow> real) \<Rightarrow> world" where
  "initial id0 rnd = resetCycle None (loaded id0 rnd)"

datatype event =
    PointerDown "obj option" "nat \<Rightarrow> real"
  | PointerUp
  | PointerMove "vec3 option"
  | RainButtonClick
  | AnimationFrame real real "nat \<Rightarrow> real"

fun step :: "event \<Rightarrow> world \<Rightarrow> world" where
  "step (PointerDown hit rnd) s = pointerdown hit rnd s"
| "step PointerUp s = pointerup s"
| "step (PointerMove hit) s = pointermove hit s"
| "step RainButtonClick s = startRain s"
| "step (AnimationFrame delta elapsed rnd) s = animate delta elapsed rnd s"

text \<open>
  What the environment can deliver in a state: a pick returns one of the candidates, a
  disabled button sends no click, the clock's delta is not negative, and random values
  lie in \<open>[0, 1)\<close>.  Which candidate the ray through a pointer position inside the
  window can hit depends on the camera's projection, which is left out: every candidate
  is admitted.  The states \<open>reachable\<close> below therefore include all those the running
  program can be in, and may include more; what holds of all of them holds of the
  program's, while a state shown reachable here is reachable by events the handlers
  accept, not necessarily by a pointer on the screen.
\<close>

fun deliverable :: "world \<Rightarrow> event \<Rightarrow> bool" where
  "deliverable s (PointerDown hit rnd) =
     ((case hit of None \<Rightarrow> True | Some target \<Rightarrow> target \<in> set (pickCandidates s)) \<and> in_unit rnd)"
| "deliverable s PointerUp = True"
| "deliverable s (PointerMove hit) = True"
| "deliverable s RainButtonClick = (\<not> rainButtonDisabled s)"
| "deliverable s (AnimationFrame delta elapsed rnd) = (0 \<le> delta \<and> in_unit rnd)"

fun run :: "event list \<Rightarrow> world \<Rightarrow> world" where
  "run [] s = s"
| "run (e # es) s = run es (step e s)"

inductive reachable :: "world \<Rightarrow> bool" where
  reach_initial: "in_unit rnd \<Longrightarrow> reachable (initial id0 rnd)"
| reach_step: "reachable s \<Longrightarrow> deliverable s e \<Longrightarrow> reachable (step e s)"

section \<open>Auxiliary predicates and sample inputs\<close>

subsection \<open>Grass placement\<close>

text \<open>
  A blade stands outside the no-grass disc of \<open>createGrassField\<close> when its horizontal
  distance to the mound centre is not below \<open>moundRadius + noGrassPad\<close>; outside the
  exclusion disc of \<open>addGrass\<close> when the distance that \<open>addGrass\<close> measures is not
  below 2.6.
\<close>

definition outsideNoGrass :: "grassOptions \<Rightarrow> blade \<Rightarrow> bool" where
  "outsideNoGrass opts g =
     (\<not> groundDist (moundCenter opts) (vx (ipos g)) (vz (ipos g))
          < moundRadius opts + noGrassPad opts)"

definition outsideExclusion :: "vec3 \<Rightarrow> blade \<Rightarrow> bool" where
  "outsideExclusion m g = (\<not> distanceTo m (Vector3 (vx (ipos g)) (vy m) (vz (ipos g))) < 2.6)"

text \<open>
  A run of two samples with the scene's options: the first sample falls on the mound
  centre and is dropped, the second lands at distance 35 and is kept.
\<close>

definition sampleOptions :: grassOptions where
  "sampleOptions = sceneGrassOptions\<lparr>count := 2\<rparr>"

definition sampleDraws :: "nat \<Rightarrow> real" where
  "sampleDraws k = (if k = 3 then 1 / 4 else 0)"

text \<open>A blade stands on the terrain when its height is the terrain height at its place.\<close>

definition onTerrain :: "blade \<Rightarrow> bool" where
  "onTerrain g = (vy (ipos g) = terrainHeight (vx (ipos g)) (vz (ipos g)))"

subsection \<open>Views of the state\<close>

text \<open>
  The notions of this section are not translations of source functions.  They name what
  the properties below speak about and are related to the code by lemmas: \<open>phaseOf\<close>
  and \<open>placeOf\<close> pick fields of the state, \<open>tick\<close> is what one frame does to the
  picked flags and scalars when no followed seed lands in it (lemma
  \<open>animate_unfollowed\<close>), and \<open>advance\<close> is what one pass of the loop of
  \<open>updateSeeds\<close> does to the seed it visits (lemma \<open>updateSeeds_seeds\<close>).
\<close>

type_synonym phase = "bool \<times> bool \<times> bool \<times> bool \<times> bool \<times> real \<times> real"

definition phaseOf :: "world \<Rightarrow> phase" where
  "phaseOf s = (planted s, watered s, blooming s, puff s, rainActive s, wetness s, growth s)"

fun tick :: "real \<Rightarrow> phase \<Rightarrow> phase" where
  "tick dt (pl, wa, bl, pu, ra, w, g) =
     (let w' = (if ra then min 1 (w + dt * 0.25) else w);
          soaked = (1 \<le> w' \<and> \<not> wa);
          g' = (if bl then min 1 (g + dt * 0.22) else g);
          grown = (bl \<and> 1 \<le> g')
      in (pl, wa \<or> soaked, bl \<and> \<not> grown, pu \<or> grown, ra \<and> \<not> soaked, w', g'))"

definition placeOf :: "world \<Rightarrow> nat option \<times> nat \<times> vec3 \<times> nat \<times> nat \<times> bool" where
  "placeOf s =
     (followedSeed s, activeMound s, plantPos s, length (mounds s), length (seeds s),
      rainButtonDisabled s)"

definition advance :: "real \<Rightarrow> real \<Rightarrow> seed \<Rightarrow> seed" where
  "advance dt elapsed sd =
     (if \<not> active sd then sd
      else if landed sd then sd
      else
        (let sd1 = integrate dt elapsed sd
         in if vy (position sd1) \<le> 0.45 then
              sd1\<lparr>position := Vector3 (vx (position sd1)) 0.45 (vz (position sd1)),
                  velocity := Vector3 0 0 0, landed := True\<rparr>
            else sd1))"

subsection \<open>A lifecycle played from page load\<close>

text \<open>
  Concrete inputs for the witnesses: every random value is 0, every frame comes 33 ms
  after the last (the clock's elapsed time, which only drives sways and drifts, is kept
  at 0), and the library's object counter starts at 0.  The scenes are the states after
  the mound is clicked, the rain button is clicked, 122 frames have soaked the mound,
  the sun is clicked, and 138 frames have grown the plant.
\<close>

definition noDraws :: "nat \<Rightarrow> real" where
  "noDraws k = 0"

definition frame :: event where
  "frame = AnimationFrame 0.033 0 noDraws"

definition freshScene :: world where
  "freshScene = initial 0 noDraws"

definition plantedScene :: world where
  "plantedScene = step (PointerDown (Some (ObjMound 0)) noDraws) freshScene"

definition rainingScene :: world where
  "rainingScene = step RainButtonClick plantedScene"

definition soakedScene :: world where
  "soakedScene = run (replicate 122 frame) rainingScene"

definition bloomingScene :: world where
  "bloomingScene = step (PointerDown (Some ObjSun) noDraws) soakedScene"

definition puffReadyScene :: world where
  "puffReadyScene = run (replicate 138 frame) bloomingScene"

subsection \<open>Invariants\<close>

text \<open>
  The order of the flags, and the fact that carries it through \<open>updateRain\<close>: rain
  falls, and the mound is wet, only when a seed is planted.
\<close>

definition flagsOrdered :: "world \<Rightarrow> bool" where
  "flagsOrdered s =
     ((watered s \<longrightarrow> planted s) \<and> (blooming s \<longrightarrow> watered s) \<and> (puff s \<longrightarrow> watered s)
      \<and> \<not> (blooming s \<and> puff s))"

definition rainNeedsPlant :: "world \<Rightarrow> bool" where
  "rainNeedsPlant s = (rainActive s \<or> 0 < wetness s \<longrightarrow> planted s)"

definition lifecycleInv :: "world \<Rightarrow> bool" where
  "lifecycleInv s = (flagsOrdered s \<and> rainNeedsPlant s)"

definition wetnessInRange :: "world \<Rightarrow> bool" where
  "wetnessInRange s = (0 \<le> wetness s \<and> wetness s \<le> 1)"

subsection \<open>Dispersal\<close>

text \<open>
  The bud sits 1.8 and the puff cluster 1.9 above the plant's position
  (\<open>bud.position.y\<close>, \<open>puff.position.y\<close>; the plant is neither rotated nor scaled).
  A seed is \<open>launched\<close> when it is as \<open>disperseSeeds\<close> makes it, given random values
  that are not negative.
\<close>

definition budPosition :: "world \<Rightarrow> vec3" where
  "budPosition s = v_add (plantPos s) (Vector3 0 1.8 0)"

definition puffPosition :: "world \<Rightarrow> vec3" where
  "puffPosition s = v_add (plantPos s) (Vector3 0 1.9 0)"

definition launched :: "world \<Rightarrow> seed \<Rightarrow> bool" where
  "launched s sd =
     (position sd = budPosition s \<and> 0 < vy (velocity sd) \<and> active sd \<and> \<not> landed sd)"

text \<open>
  The lifecycle continued: the bud is clicked, the sun is clicked once more, and one
  frame passes.
\<close>

definition dispersedScene :: world where
  "dispersedScene = step (PointerDown (Some ObjBud) noDraws) puffReadyScene"

definition rebloomScene :: world where
  "rebloomScene = step (PointerDown (Some ObjSun) noDraws) dispersedScene"

definition secondPuffScene :: world where
  "secondPuffScene = step frame rebloomScene"

subsection \<open>Seeds across cycles\<close>

definition seedsInScene :: "world \<Rightarrow> bool" where
  "seedsInScene s = (\<forall>sd\<in>set (seeds s). ObjSeed (mesh sd) \<in> set (scene s))"

subsection \<open>Landing\<close>

text \<open>
  \<open>newCycleAt p s\<close> is the state the landing branch of \<open>updateSeeds\<close> builds when the
  followed seed comes down at \<open>p\<close>, but for the seed list.  \<open>altitude\<close> picks the height,
  the vertical speed and the landed mark of a seed; the wind being horizontal,
  \<open>descend\<close> is what one frame does to them (lemma \<open>advance_altitude\<close>).
\<close>

definition newCycleAt :: "vec3 \<Rightarrow> world \<Rightarrow> world" where
  "newCycleAt p s =
     setStatus ''A new mound formed. Click it to plant again.''
       (resetCycle (Some (length (mounds s))) (snd (addMound (Vector3 (vx p) 0.45 (vz p)) s)))"

definition restsIfLanded :: "seed \<Rightarrow> bool" where
  "restsIfLanded sd = (landed sd \<longrightarrow> velocity sd = Vector3 0 0 0 \<and> vy (position sd) = 0.45)"

definition altitude :: "seed \<Rightarrow> real \<times> real \<times> bool" where
  "altitude sd = (vy (position sd), vy (velocity sd), landed sd)"

fun descend :: "real \<Rightarrow> real \<times> real \<times> bool \<Rightarrow> real \<times> real \<times> bool" where
  "descend dt (y, v, l) =
     (if l then (y, v, l)
      else
        (let v' = v - 1.2 * dt;
             y' = y + v' * dt
         in if y' \<le> 0.45 then (0.45, 0, True) else (y', v', False)))"

text \<open>
  The lifecycle continued after the dispersal: the first seed is clicked and followed,
  97 frames pass with the seed in flight, and in the next frame it lands.
\<close>

definition followScene :: world where
  "followScene =
     step (PointerDown (Some (ObjSeed (mesh (hd (seeds dispersedScene))))) noDraws)
       dispersedScene"

definition flightScene :: world where
  "flightScene = run (replicate 97 frame) followScene"

definition landedScene :: world where
  "landedScene = step frame flightScene"

subsection \<open>Wetness over a frame\<close>

text \<open>
  \<open>followedLands dt elapsed s\<close>: the loop of \<open>updateSeeds\<close>, run on \<open>s\<close>, takes its landing
  branch for the followed seed, which resets the cycle.
\<close>

definition followedLands :: "real \<Rightarrow> real \<Rightarrow> world \<Rightarrow> bool" where
  "followedLands dt elapsed s =
     (case followedSeed s of
        None \<Rightarrow> False
      | Some i \<Rightarrow> i < length (seeds s) \<and> active (seeds s ! i) \<and> \<not> landed (seeds s ! i) \<and>
                  vy (position (integrate dt elapsed (seeds s ! i))) \<le> 0.45)"

text \<open>
  A run of the lifecycle in which the second seed rises faster than the others: the
  first seed is followed and lands after 98 frames, the new mound is planted and the
  rain started, the second seed, still in the air, is followed, and six frames pass.
\<close>

definition gustDraws :: "nat \<Rightarrow> real" where
  "gustDraws k = (if k = 5 then 1 / 10 else 0)"

definition gustScene :: world where
  "gustScene = step (PointerDown (Some ObjBud) gustDraws) puffReadyScene"

definition chaseScene :: world where
  "chaseScene =
     step (PointerDown (Some (ObjSeed (mesh (hd (seeds gustScene))))) noDraws) gustScene"

definition touchdownScene :: world where
  "touchdownScene = step frame (run (replicate 97 frame) chaseScene)"

definition replantedScene :: world where
  "replantedScene = step (PointerDown (Some (ObjMound 1)) noDraws) touchdownScene"

definition rainAgainScene :: world where
  "rainAgainScene = step RainButtonClick replantedScene"

definition secondChaseScene :: world where
  "secondChaseScene =
     step (PointerDown (Some (ObjSeed (mesh (seeds rainAgainScene ! 1)))) noDraws)
       rainAgainScene"

definition lateFlightScene :: world where
  "lateFlightScene = run (replicate 6 frame) secondChaseScene"

section \<open>Properties\<close>

subsection \<open>Grass placement\<close>

lemma grassFieldLoop_length:
  "length (grassFieldLoop rnd opts n k kept) \<le> length kept + n"
proof (induction n arbitrary: k kept)
  case 0
  show ?case by simp
next
  case (Suc n)
  have skip: "length (grassFieldLoop rnd opts n j kept) \<le> Suc (length kept + n)" for j
    using Suc.IH [of j kept] by simp
  have keep: "length (grassFieldLoop rnd opts n j (kept @ [g])) \<le> Suc (length kept + n)" for j g
    using Suc.IH [of j "kept @ [g]"] by simp
  show ?case
    by (simp add: Let_def skip keep)
qed

lemma outsideNoGrass_blade:
  "\<not> groundDist (moundCenter opts) x z < moundRadius opts + noGrassPad opts \<Longrightarrow>
   outsideNoGrass opts \<lparr>ipos = Vector3 x y z, irot = r, iscale = s\<rparr>"
  by (simp add: outsideNoGrass_def)

lemma grassFieldLoop_outside:
  "list_all (outsideNoGrass opts) kept \<Longrightarrow>
   list_all (outsideNoGrass opts) (grassFieldLoop rnd opts n k kept)"
proof (induction n arbitrary: k kept)
  case 0
  then show ?case by simp
next
  case (Suc n)
  have skip: "list_all (outsideNoGrass opts) (grassFieldLoop rnd opts n j kept)" for j
    using Suc.IH Suc.prems by simp
  have keep: "list_all (outsideNoGrass opts) (grassFieldLoop rnd opts n j (kept @ [g]))"
    if "outsideNoGrass opts g" for j g
    using Suc.IH [of "kept @ [g]" j] Suc.prems that by simp
  show ?case
    by (simp add: Let_def skip keep outsideNoGrass_blade)
qed

lemma addGrassLoop_length:
  "length (addGrassLoop rnd m n k done) = length done + n"
  by (induction n arbitrary: k "done") (simp_all add: Let_def)

lemma far_corner: "\<not> distanceTo firstMoundPos (Vector3 999 (vy firstMoundPos) 999) < 2.6"
proof -
  have "(2.6::real) \<le> sqrt (999 * 999 + 999 * 999)"
    by (rule real_le_rsqrt) (simp add: power2_eq_square)
  then show ?thesis by (simp add: distanceTo_def firstMoundPos_def Let_def)
qed

lemma outsideExclusion_hidden:
  "outsideExclusion firstMoundPos \<lparr>ipos = Vector3 999 y 999, irot = r, iscale = s\<rparr>"
  using far_corner by (simp add: outsideExclusion_def)

lemma outsideExclusion_shown:
  "\<not> distanceTo m (Vector3 x (vy m) z) < 2.6 \<Longrightarrow>
   outsideExclusion m \<lparr>ipos = Vector3 x y z, irot = r, iscale = s\<rparr>"
  by (simp add: outsideExclusion_def)

lemma addGrassLoop_outside:
  "list_all (outsideExclusion firstMoundPos) done \<Longrightarrow>
   list_all (outsideExclusion firstMoundPos) (addGrassLoop rnd firstMoundPos n k done)"
proof (induction n arbitrary: k "done")
  case 0
  then show ?case by simp
next
  case (Suc n)
  have "list_all (outsideExclusion firstMoundPos)
          (addGrassLoop rnd firstMoundPos n j (done @ [g]))"
    if "outsideExclusion firstMoundPos g" for j g
    using Suc.IH [of "done @ [g]" j] Suc.prems that by simp
  then show ?case
    by (simp add: Let_def outsideExclusion_hidden outsideExclusion_shown)
qed


lemma addGrassLoop_append:
  "addGrassLoop rnd m n k done = done @ addGrassLoop rnd m n k []"
proof (induction n arbitrary: k "done")
  case 0
  show ?case by simp
next
  case (Suc n)
  show ?case
    by (simp add: Let_def Suc.IH [of _ "done @ _"] Suc.IH [of _ "[_]"])
qed

text \<open>
  Claim C1.  Every run of either grass sampler places at most the requested number of
  instances, and no placed instance lies strictly inside the exclusion radius around
  the mound centre.  For \<open>createGrassField\<close> the placed instances are the \<open>kept\<close>
  matrices and the radius is \<open>moundRadius + noGrassPad\<close>; for \<open>addGrass\<close>, which is
  called with the first mound active, all 14000 matrices are written and the radius is
  2.6 (a rejected sample is written at \<open>(999, -999, 999)\<close>, far from the mound).
\<close>

theorem grass_placement:
  "length (createGrassField rnd opts) \<le> count opts \<and>
   (\<forall>g\<in>set (createGrassField rnd opts).
      \<not> groundDist (moundCenter opts) (vx (ipos g)) (vz (ipos g))
          < moundRadius opts + noGrassPad opts) \<and>
   length (addGrass rnd' firstMoundPos) \<le> 14000 \<and>
   (\<forall>g\<in>set (addGrass rnd' firstMoundPos).
      \<not> distanceTo firstMoundPos (Vector3 (vx (ipos g)) (vy firstMoundPos) (vz (ipos g))) < 2.6)"
proof (intro conjI)
  show "length (createGrassField rnd opts) \<le> count opts"
    using grassFieldLoop_length [of rnd opts "count opts" 0 "[]"]
    by (simp add: createGrassField_def)
  have "list_all (outsideNoGrass opts) (createGrassField rnd opts)"
    unfolding createGrassField_def by (rule grassFieldLoop_outside) simp
  then show "\<forall>g\<in>set (createGrassField rnd opts).
      \<not> groundDist (moundCenter opts) (vx (ipos g)) (vz (ipos g))
          < moundRadius opts + noGrassPad opts"
    by (simp add: list_all_iff outsideNoGrass_def)
  show "length (addGrass rnd' firstMoundPos) \<le> 14000"
    by (simp add: addGrass_def addGrassLoop_length)
  have "list_all (outsideExclusion firstMoundPos) (addGrass rnd' firstMoundPos)"
    unfolding addGrass_def by (rule addGrassLoop_outside) simp
  then show "\<forall>g\<in>set (addGrass rnd' firstMoundPos).
      \<not> distanceTo firstMoundPos (Vector3 (vx (ipos g)) (vy firstMoundPos) (vz (ipos g))) < 2.6"
    by (simp add: list_all_iff outsideExclusion_def)
qed

lemma sqrt_quarter: "sqrt (1 / 4) = 1 / 2"
  by (simp add: real_sqrt_divide)

lemma sqrt_1225: "sqrt 1225 = 35"
  by (rule real_sqrt_unique) simp_all

lemma sample_field:
  "createGrassField sampleDraws sampleOptions =
     [\<lparr>ipos = Vector3 35 (terrainHeight 35 0) 0, irot = Vector3 (- 0.075) 0 0, iscale = 0.6\<rparr>]"
  by (simp add: createGrassField_def sampleOptions_def sceneGrassOptions_def sampleDraws_def
      MOUND_POS_def numeral_2_eq_2 Let_def groundDist_def sqrt_quarter sqrt_1225
      smoothstep_def clamp_def lerp_def js_gt_def)

lemma hidden_blade_first:
  "\<lparr>ipos = Vector3 999 (- 999) 999, irot = Vector3 0 0 0, iscale = 0.65\<rparr>
     \<in> set (addGrassLoop (\<lambda>k. 0) firstMoundPos (Suc n) k [])"
proof -
  have "addGrassLoop (\<lambda>k. 0) firstMoundPos (Suc n) k []
          = addGrassLoop (\<lambda>k. 0) firstMoundPos n (k + 4)
              [\<lparr>ipos = Vector3 999 (- 999) 999, irot = Vector3 0 0 0, iscale = 0.65\<rparr>]"
    by (simp add: Let_def distanceTo_def firstMoundPos_def)
  then show ?thesis
    by (simp add: addGrassLoop_append [of _ _ _ _ "[_]"])
qed

lemma hidden_blade_in_addGrass:
  "\<lparr>ipos = Vector3 999 (- 999) 999, irot = Vector3 0 0 0, iscale = 0.65\<rparr>
     \<in> set (addGrass (\<lambda>k. 0) firstMoundPos)"
proof -
  have "(14000::nat) = Suc 13999" by simp
  then show ?thesis
    unfolding addGrass_def by (simp only: hidden_blade_first)
qed

theorem grass_placement_witness:
  "length (createGrassField sampleDraws sampleOptions) = 1 \<and>
   length (createGrassField sampleDraws sampleOptions) \<le> count sampleOptions \<and>
   \<not> groundDist (moundCenter sampleOptions) 35 0
        < moundRadius sampleOptions + noGrassPad sampleOptions \<and>
   length (addGrass (\<lambda>k. 0) firstMoundPos) \<le> 14000 \<and>
   \<not> distanceTo firstMoundPos (Vector3 999 (vy firstMoundPos) 999) < 2.6"
proof -
  note th = grass_placement [of sampleDraws sampleOptions "\<lambda>k. 0"]
  have a: "length (createGrassField sampleDraws sampleOptions) = 1"
    by (simp add: sample_field)
  have b: "\<not> groundDist (moundCenter sampleOptions) 35 0
        < moundRadius sampleOptions + noGrassPad sampleOptions"
    using th sample_field by simp
  have c: "\<not> distanceTo firstMoundPos (Vector3 999 (vy firstMoundPos) 999) < 2.6"
    using th hidden_blade_in_addGrass by fastforce
  show ?thesis using th a b c by simp
qed

subsection \<open>Frames and the sample lifecycle\<close>

lemma foldl_preserves:
  "(\<And>s i. P s \<Longrightarrow> P (f s i)) \<Longrightarrow> P s \<Longrightarrow> P (foldl f s xs)"
  by (induction xs arbitrary: s) simp_all

lemma run_append: "run (es @ fs) s = run fs (run es s)"
  by (induction es arbitrary: s) simp_all

lemma findSeed_not_seed: "(\<And>k. target \<noteq> ObjSeed k) \<Longrightarrow> findSeed target sds = None"
  by (induction sds) auto

text \<open>The loop body writes the seed at its index and nothing else of the seed list.\<close>

lemma seedStep_seeds:
  "seeds (seedStep dt elapsed s i) = (seeds s)[i := advance dt elapsed (seeds s ! i)]"
  by (simp add: seedStep_def advance_def Let_def addMound_def resetCycle_def setStatus_def
      split: prod.splits)

lemma seedStep_unfollowed:
  "followedSeed s \<noteq> Some i \<Longrightarrow>
   seedStep dt elapsed s i = s\<lparr>seeds := seeds (seedStep dt elapsed s i)\<rparr>"
  by (simp add: seedStep_def Let_def)

lemma foldl_seedStep_unfollowed:
  "followedSeed s \<notin> Some ` set xs \<Longrightarrow>
   foldl (seedStep dt elapsed) s xs = s\<lparr>seeds := seeds (foldl (seedStep dt elapsed) s xs)\<rparr>"
proof (induction xs arbitrary: s)
  case Nil
  show ?case by simp
next
  case (Cons x xs)
  let ?t = "seedStep dt elapsed s x"
  have t: "?t = s\<lparr>seeds := seeds ?t\<rparr>"
    using Cons.prems by (intro seedStep_unfollowed) auto
  have "followedSeed ?t = followedSeed (s\<lparr>seeds := seeds ?t\<rparr>)"
    by (rule arg_cong [OF t])
  then have "followedSeed ?t = followedSeed s" by simp
  then have "followedSeed ?t \<notin> Some ` set xs"
    using Cons.prems by auto
  from Cons.IH [OF this]
  have "foldl (seedStep dt elapsed) ?t xs
          = ?t\<lparr>seeds := seeds (foldl (seedStep dt elapsed) ?t xs)\<rparr>" .
  also have "\<dots> = s\<lparr>seeds := seeds (foldl (seedStep dt elapsed) ?t xs)\<rparr>"
    by (subst t) simp
  finally show ?case by simp
qed

lemma updateSeeds_unfollowed:
  assumes "followedSeed s = None"
  shows "updateSeeds dt elapsed s = s\<lparr>seeds := seeds (updateSeeds dt elapsed s)\<rparr>"
  unfolding updateSeeds_def using assms by (intro foldl_seedStep_unfollowed) simp

lemma foldl_seedStep_seeds:
  "n \<le> length (seeds s) \<Longrightarrow>
   seeds (foldl (seedStep dt elapsed) s [0..<n])
     = map (advance dt elapsed) (take n (seeds s)) @ drop n (seeds s)"
proof (induction n)
  case 0
  show ?case by simp
next
  case (Suc n)
  let ?f = "advance dt elapsed"
  let ?t = "foldl (seedStep dt elapsed) s [0..<n]"
  from Suc have n: "n < length (seeds s)" by simp
  have t: "seeds ?t = map ?f (take n (seeds s)) @ drop n (seeds s)"
    using Suc by simp
  have at: "seeds ?t ! n = seeds s ! n"
    using n by (simp add: t nth_append)
  have "seeds (foldl (seedStep dt elapsed) s [0..<Suc n]) = (seeds ?t)[n := ?f (seeds ?t ! n)]"
    by (simp add: seedStep_seeds)
  also have "\<dots> = (seeds ?t)[n := ?f (seeds s ! n)]"
    by (simp only: at)
  also have "\<dots> = map ?f (take n (seeds s)) @ (drop n (seeds s))[0 := ?f (seeds s ! n)]"
    using n by (simp add: t list_update_append)
  also have "(drop n (seeds s))[0 := ?f (seeds s ! n)] = ?f (seeds s ! n) # drop (Suc n) (seeds s)"
    using n by (simp add: Cons_nth_drop_Suc [symmetric])
  finally show ?case
    using n by (simp add: take_Suc_conv_app_nth)
qed

lemma updateSeeds_seeds:
  "seeds (updateSeeds dt elapsed s) = map (advance dt elapsed) (seeds s)"
  by (simp add: updateSeeds_def foldl_seedStep_seeds)

lemma updateRain_phase:
  "phaseOf (updateRain rnd dt elapsed s) =
     (let w' = (if rainActive s then min 1 (wetness s + dt * 0.25) else wetness s);
          soaked = (1 \<le> w' \<and> \<not> watered s)
      in (planted s, watered s \<or> soaked, blooming s, puff s, rainActive s \<and> \<not> soaked, w',
          growth s))"
  by (auto simp add: updateRain_def Let_def setStatus_def phaseOf_def)

lemma updateGrowth_phase:
  "phaseOf (updateGrowth dt s) =
     (let g' = (if blooming s then min 1 (growth s + dt * 0.22) else growth s);
          grown = (blooming s \<and> 1 \<le> g')
      in (planted s, watered s, blooming s \<and> \<not> grown, puff s \<or> grown, rainActive s,
          wetness s, g'))"
  by (auto simp add: updateGrowth_def Let_def setStatus_def phaseOf_def)

lemma updateRain_place: "placeOf (updateRain rnd dt elapsed s) = placeOf s"
  by (simp add: updateRain_def Let_def setStatus_def placeOf_def)

lemma updateGrowth_place: "placeOf (updateGrowth dt s) = placeOf s"
  by (simp add: updateGrowth_def Let_def setStatus_def placeOf_def)

lemma updateSeeds_length: "length (seeds (updateSeeds dt elapsed s)) = length (seeds s)"
  by (simp add: updateSeeds_seeds)

lemma updateSeeds_unfollowed_views:
  assumes "followedSeed s = None"
  shows "phaseOf (updateSeeds dt elapsed s) = phaseOf s"
    and "placeOf (updateSeeds dt elapsed s) = placeOf s"
proof -
  let ?u = "updateSeeds dt elapsed s"
  have u: "?u = s\<lparr>seeds := seeds ?u\<rparr>"
    using assms by (rule updateSeeds_unfollowed)
  have "phaseOf ?u = phaseOf (s\<lparr>seeds := seeds ?u\<rparr>)" by (rule arg_cong [OF u])
  then show "phaseOf ?u = phaseOf s" by (simp add: phaseOf_def)
  have "placeOf ?u = placeOf (s\<lparr>seeds := seeds ?u\<rparr>)" by (rule arg_cong [OF u])
  then show "placeOf ?u = placeOf s" by (simp add: placeOf_def updateSeeds_length)
qed

text \<open>A frame with no followed seed: the flags and scalars move as \<open>tick\<close> says.\<close>

lemma animate_unfollowed:
  assumes "followedSeed s = None"
  shows "phaseOf (animate delta elapsed rnd s) = tick (min delta 0.033) (phaseOf s)"
    and "placeOf (animate delta elapsed rnd s) = placeOf s"
proof -
  let ?dt = "min delta 0.033"
  let ?s1 = "s\<lparr>cloudLeftPos := Vector3 (vx (cloudLeftPos s) + sin (elapsed * 0.25) * 0.002)
                   (vy (cloudLeftPos s)) (vz (cloudLeftPos s)),
               cloudRightPos := Vector3 (vx (cloudRightPos s) - sin (elapsed * 0.22) * 0.002)
                   (vy (cloudRightPos s)) (vz (cloudRightPos s))\<rparr>"
  let ?s3 = "updateGrowth ?dt (updateRain rnd ?dt elapsed ?s1)"
  let ?s4 = "updateSeeds ?dt elapsed ?s3"
  have an: "animate delta elapsed rnd s =
      ?s4\<lparr>cameraPos := v_lerp (cameraPos ?s4)
         (v_add (case followedSeed ?s4 of Some i \<Rightarrow> position (seeds ?s4 ! i)
                  | None \<Rightarrow> mpos (mounds ?s4 ! activeMound ?s4)) (Vector3 7.5 5.5 8)) 0.02\<rparr>"
    unfolding animate_def Let_def ..
  have pl3: "placeOf ?s3 = placeOf s"
    by (simp add: updateGrowth_place updateRain_place) (simp add: placeOf_def)
  then have "followedSeed ?s3 = None"
    using assms by (simp add: placeOf_def)
  note v = updateSeeds_unfollowed_views [OF this, of ?dt elapsed]
  have ph3: "phaseOf ?s3 = tick ?dt (phaseOf s)"
    unfolding updateGrowth_phase
    using updateRain_phase [of rnd ?dt elapsed ?s1]
    by (simp add: phaseOf_def Let_def)
  show "phaseOf (animate delta elapsed rnd s) = tick ?dt (phaseOf s)"
    unfolding an using v(1) ph3 by (simp add: phaseOf_def)
  show "placeOf (animate delta elapsed rnd s) = placeOf s"
    unfolding an using v(2) pl3 by (simp add: placeOf_def)
qed

lemma frames_unfollowed:
  "followedSeed s = None \<Longrightarrow>
   phaseOf (run (replicate n frame) s) = (tick 0.033 ^^ n) (phaseOf s) \<and>
   placeOf (run (replicate n frame) s) = placeOf s"
proof (induction n arbitrary: s)
  case 0
  show ?case by simp
next
  case (Suc n)
  have a: "phaseOf (step frame s) = tick 0.033 (phaseOf s)" "placeOf (step frame s) = placeOf s"
    using animate_unfollowed [OF Suc.prems, of "0.033" 0 noDraws] by (simp_all add: frame_def)
  then have "followedSeed (step frame s) = None"
    using Suc.prems by (simp add: placeOf_def)
  from Suc.IH [OF this] show ?case
    using a by (simp add: funpow_swap1)
qed

lemma in_unit_noDraws: "in_unit noDraws"
  by (simp add: in_unit_def noDraws_def)

lemma reachable_frames: "reachable s \<Longrightarrow> reachable (run (replicate n frame) s)"
proof (induction n arbitrary: s)
  case 0
  then show ?case by simp
next
  case (Suc n)
  have "deliverable s frame" by (simp add: frame_def in_unit_noDraws)
  with Suc.prems have "reachable (step frame s)" by (rule reachable.reach_step)
  then show ?case using Suc.IH by simp
qed

lemma click_mound:
  assumes "phaseOf s = (False, wa, bl, pu, ra, w, g)" and "activeMound s = k"
  shows "phaseOf (pointerdown (Some (ObjMound k)) rnd s) = (True, wa, bl, pu, ra, w, g)"
    and "placeOf (pointerdown (Some (ObjMound k)) rnd s) = placeOf s"
  using assms by (simp_all add: pointerdown_def setStatus_def phaseOf_def placeOf_def)

lemma click_rain:
  assumes "phaseOf s = (True, False, bl, pu, False, w, g)"
  shows "phaseOf (startRain s) = (True, False, bl, pu, True, w, g)"
    and "placeOf (startRain s)
          = (followedSeed s, activeMound s, plantPos s, length (mounds s), length (seeds s), True)"
  using assms by (simp_all add: startRain_def setStatus_def phaseOf_def placeOf_def)

lemma click_sun:
  assumes "phaseOf s = (pl, True, bl, False, ra, w, g)"
  shows "phaseOf (pointerdown (Some ObjSun) rnd s) = (pl, True, True, False, ra, w, g)"
    and "placeOf (pointerdown (Some ObjSun) rnd s) = placeOf s"
  using assms by (simp_all add: pointerdown_def setStatus_def phaseOf_def placeOf_def)

lemma freshScene_views:
  "phaseOf freshScene = (False, False, False, False, False, 0, 0)"
  "placeOf freshScene = (None, 0, firstMoundPos, 1, 0, False)"
  by (simp_all add: freshScene_def initial_def loaded_def resetCycle_def setStatus_def
      phaseOf_def placeOf_def Let_def)

lemma freshScene_reachable: "reachable freshScene"
  unfolding freshScene_def by (rule reachable.reach_initial) (rule in_unit_noDraws)

lemma plantedScene_views:
  "phaseOf plantedScene = (True, False, False, False, False, 0, 0)"
  "placeOf plantedScene = (None, 0, firstMoundPos, 1, 0, False)"
  using click_mound [OF freshScene_views(1), of 0 noDraws] freshScene_views(2)
  by (simp_all add: plantedScene_def placeOf_def)

lemma plantedScene_reachable: "reachable plantedScene"
proof -
  have "deliverable freshScene (PointerDown (Some (ObjMound 0)) noDraws)"
    using freshScene_views(2) by (simp add: pickCandidates_def placeOf_def in_unit_noDraws)
  with freshScene_reachable show ?thesis
    unfolding plantedScene_def by (rule reachable.reach_step)
qed

lemma rainingScene_views:
  "phaseOf rainingScene = (True, False, False, False, True, 0, 0)"
  "placeOf rainingScene = (None, 0, firstMoundPos, 1, 0, True)"
  using click_rain [OF plantedScene_views(1)] plantedScene_views(2)
  by (simp_all add: rainingScene_def placeOf_def)

lemma rainingScene_reachable: "reachable rainingScene"
proof -
  have "deliverable plantedScene RainButtonClick"
    using plantedScene_views(2) by (simp add: placeOf_def)
  with plantedScene_reachable show ?thesis
    unfolding rainingScene_def by (rule reachable.reach_step)
qed

lemma soak: "(tick 0.033 ^^ 122) (True, False, False, False, True, 0, 0)
               = (True, True, False, False, False, 1, 0)"
  by (simp add: eval_nat_numeral Let_def)

lemma grow: "(tick 0.033 ^^ 138) (True, True, True, False, False, 1, 0)
               = (True, True, False, True, False, 1, 1)"
  by (simp add: eval_nat_numeral Let_def)

lemma soakedScene_views:
  "phaseOf soakedScene = (True, True, False, False, False, 1, 0)"
  "placeOf soakedScene = (None, 0, firstMoundPos, 1, 0, True)"
proof -
  have "followedSeed rainingScene = None"
    using rainingScene_views(2) by (simp add: placeOf_def)
  from frames_unfollowed [OF this, of 122]
  show "phaseOf soakedScene = (True, True, False, False, False, 1, 0)"
    and "placeOf soakedScene = (None, 0, firstMoundPos, 1, 0, True)"
    unfolding soakedScene_def rainingScene_views soak by simp_all
qed

lemma soakedScene_reachable: "reachable soakedScene"
  unfolding soakedScene_def using rainingScene_reachable by (rule reachable_frames)

lemma bloomingScene_views:
  "phaseOf bloomingScene = (True, True, True, False, False, 1, 0)"
  "placeOf bloomingScene = (None, 0, firstMoundPos, 1, 0, True)"
  using click_sun [OF soakedScene_views(1), of noDraws] soakedScene_views(2)
  by (simp_all add: bloomingScene_def)

lemma bloomingScene_reachable: "reachable bloomingScene"
proof -
  have "deliverable soakedScene (PointerDown (Some ObjSun) noDraws)"
    by (simp add: pickCandidates_def in_unit_noDraws)
  with soakedScene_reachable show ?thesis
    unfolding bloomingScene_def by (rule reachable.reach_step)
qed

lemma puffReadyScene_views:
  "phaseOf puffReadyScene = (True, True, False, True, False, 1, 1)"
  "placeOf puffReadyScene = (None, 0, firstMoundPos, 1, 0, True)"
proof -
  have "followedSeed bloomingScene = None"
    using bloomingScene_views(2) by (simp add: placeOf_def)
  from frames_unfollowed [OF this, of 138]
  show "phaseOf puffReadyScene = (True, True, False, True, False, 1, 1)"
    and "placeOf puffReadyScene = (None, 0, firstMoundPos, 1, 0, True)"
    unfolding puffReadyScene_def bloomingScene_views grow by simp_all
qed

lemma puffReadyScene_reachable: "reachable puffReadyScene"
  unfolding puffReadyScene_def using bloomingScene_reachable by (rule reachable_frames)

subsection \<open>Guarded no-ops\<close>

text \<open>
  Claim C7.  A click on the active mound when a seed is already planted, a click on the
  sun before the mound is watered, and a rain request (the button, or the clouds brought
  together) while rain is falling or the mound is already watered each leave the whole
  state as it was; the handlers have no failing path.
\<close>

theorem guarded_noops:
  "(planted s \<longrightarrow> pointerdown (Some (ObjMound (activeMound s))) rnd s = s) \<and>
   (\<not> watered s \<longrightarrow> pointerdown (Some ObjSun) rnd s = s) \<and>
   (rainActive s \<or> watered s \<longrightarrow> startRain s = s \<and> step RainButtonClick s = s)"
  by (simp add: pointerdown_def startRain_def findSeed_not_seed)

theorem guarded_noops_witness:
  "planted rainingScene \<and>
   pointerdown (Some (ObjMound (activeMound rainingScene))) noDraws rainingScene = rainingScene \<and>
   \<not> watered rainingScene \<and>
   pointerdown (Some ObjSun) noDraws rainingScene = rainingScene \<and>
   rainActive rainingScene \<and> startRain rainingScene = rainingScene \<and>
   watered soakedScene \<and> startRain soakedScene = soakedScene"
  using guarded_noops [of rainingScene noDraws] guarded_noops [of soakedScene noDraws]
    rainingScene_views(1) soakedScene_views(1)
  by (simp add: phaseOf_def)

subsection \<open>Terrain height\<close>

lemma grassFieldLoop_onTerrain:
  "list_all onTerrain kept \<Longrightarrow> list_all onTerrain (grassFieldLoop rnd opts n k kept)"
proof (induction n arbitrary: k kept)
  case 0
  then show ?case by simp
next
  case (Suc n)
  have skip: "list_all onTerrain (grassFieldLoop rnd opts n j kept)" for j
    using Suc.IH Suc.prems by simp
  have keep: "list_all onTerrain (grassFieldLoop rnd opts n j (kept @ [g]))"
    if "onTerrain g" for j g
    using Suc.IH [of "kept @ [g]" j] Suc.prems that by simp
  have new: "onTerrain \<lparr>ipos = Vector3 x (terrainHeight x z) z, irot = r, iscale = s\<rparr>"
    for x z r s
    by (simp add: onTerrain_def)
  show ?case
    by (simp add: Let_def skip keep new)
qed

lemma terrainHeight_origin: "terrainHeight 0 0 = 0.474"
  by (simp add: terrainHeight_def hash2_def Let_def)

lemma hash2Body_eval:
  "evalExpr rnd globals (env(''x'' := x, ''z'' := z)) hash2Body k = (hash2 x z, k)"
  by (simp add: hash2Body_def hash2_def Let_def)

text \<open>
  An expression that calls \<open>Math.random()\<close> does depend on the random sequence, and moves
  the position in it: the property below is not one that every expression has.
\<close>

lemma angleDraw_draws:
  "evalExpr (\<lambda>k. 0) globals env angleDraw 0 = (0, 1) \<and>
   evalExpr (\<lambda>k. 1 / 2) globals env angleDraw 0 = (pi, 1)"
  by (simp add: angleDraw_def)

text \<open>
  Claim C8.  A call \<open>terrainHeight(x, z)\<close> returns the same elevation, \<open>terrainHeight x z\<close>,
  whatever the random sequence, the position in it, the module's variables and the
  caller's locals it is evaluated with, and it draws no random number; so do calls of
  the jitter term \<open>hash2\<close>.  Two calls with the same \<open>(x, z)\<close>, made in any two such
  surroundings, therefore give the same elevation.
\<close>

theorem terrainHeight_pure:
  "evalExpr rnd globals env (Call [''x'', ''z''] terrainHeightBody [Num x, Num z]) k
     = (terrainHeight x z, k) \<and>
   evalExpr rnd globals env (Call [''x'', ''z''] hash2Body [Num x, Num z]) k
     = (hash2 x z, k) \<and>
   fst (evalExpr rnd globals env (Call [''x'', ''z''] terrainHeightBody [Num x, Num z]) k)
     = fst (evalExpr rnd' globals' env' (Call [''x'', ''z''] terrainHeightBody [Num x, Num z]) k')"
  by (simp add: terrainHeightBody_def hash2Body_eval terrainHeight_def Let_def)

subsection \<open>Order of the lifecycle flags\<close>

lemma disperseLoop_phase: "phaseOf (disperseLoop rnd n i s) = phaseOf s"
  by (induction n arbitrary: i s) (simp_all add: spawnSeed_def Let_def phaseOf_def)

lemma resetCycle_phase: "phaseOf (resetCycle m s) = (False, False, False, False, False, 0, 0)"
  by (cases m) (simp_all add: resetCycle_def Let_def setStatus_def phaseOf_def)

lemma lifecycleInv_phase: "phaseOf t = phaseOf s \<Longrightarrow> lifecycleInv t = lifecycleInv s"
  by (simp add: lifecycleInv_def flagsOrdered_def rainNeedsPlant_def phaseOf_def)

lemma lifecycleInv_reset: "lifecycleInv (resetCycle m s)"
  using resetCycle_phase [of m s]
  by (simp add: lifecycleInv_def flagsOrdered_def rainNeedsPlant_def phaseOf_def)

lemma lifecycleInv_pointerdown: "lifecycleInv s \<Longrightarrow> lifecycleInv (pointerdown hit rnd s)"
proof -
  assume inv: "lifecycleInv s"
  have "phaseOf (disperseLoop rnd 36 0 (s\<lparr>puff := False, puffVisible := False,
            budVisible := False\<rparr>)) = phaseOf (s\<lparr>puff := False\<rparr>)"
    by (simp add: disperseLoop_phase) (simp add: phaseOf_def)
  then have "lifecycleInv (disperseSeeds rnd s)"
    using inv
    by (auto simp add: disperseSeeds_def setStatus_def lifecycleInv_def flagsOrdered_def
        rainNeedsPlant_def phaseOf_def)
  with inv show ?thesis
    by (cases hit)
       (auto simp add: pointerdown_def setStatus_def lifecycleInv_def flagsOrdered_def
          rainNeedsPlant_def split: option.splits)
qed

lemma lifecycleInv_startRain: "lifecycleInv s \<Longrightarrow> lifecycleInv (startRain s)"
  by (auto simp add: startRain_def setStatus_def lifecycleInv_def flagsOrdered_def
      rainNeedsPlant_def)

lemma lifecycleInv_pointermove: "lifecycleInv s \<Longrightarrow> lifecycleInv (pointermove hit s)"
proof -
  assume inv: "lifecycleInv s"
  have moved: "lifecycleInv (s\<lparr>cloudLeftPos := p\<rparr>)" "lifecycleInv (s\<lparr>cloudRightPos := p\<rparr>)" for p
    using inv by (simp_all add: lifecycleInv_def flagsOrdered_def rainNeedsPlant_def)
  show ?thesis
    using inv moved
    by (simp add: pointermove_def Let_def lifecycleInv_startRain split: option.splits)
qed

lemma lifecycleInv_updateRain: "lifecycleInv s \<Longrightarrow> lifecycleInv (updateRain rnd dt elapsed s)"
  by (auto simp add: updateRain_def Let_def setStatus_def lifecycleInv_def flagsOrdered_def
      rainNeedsPlant_def)

lemma lifecycleInv_updateGrowth: "lifecycleInv s \<Longrightarrow> lifecycleInv (updateGrowth dt s)"
  by (auto simp add: updateGrowth_def Let_def setStatus_def lifecycleInv_def flagsOrdered_def
      rainNeedsPlant_def)

lemma seedStep_phase:
  "phaseOf (seedStep dt elapsed s i) = phaseOf s \<or>
   phaseOf (seedStep dt elapsed s i) = (False, False, False, False, False, 0, 0)"
  using resetCycle_phase
  by (simp add: seedStep_def Let_def setStatus_def phaseOf_def split: prod.splits)

lemma lifecycleInv_seedStep: "lifecycleInv s \<Longrightarrow> lifecycleInv (seedStep dt elapsed s i)"
  using seedStep_phase [of dt elapsed s i]
  by (auto simp add: lifecycleInv_def flagsOrdered_def rainNeedsPlant_def phaseOf_def)

lemma lifecycleInv_updateSeeds: "lifecycleInv s \<Longrightarrow> lifecycleInv (updateSeeds dt elapsed s)"
  unfolding updateSeeds_def by (rule foldl_preserves) (rule lifecycleInv_seedStep)

lemma lifecycleInv_animate: "lifecycleInv s \<Longrightarrow> lifecycleInv (animate delta elapsed rnd s)"
proof -
  assume inv: "lifecycleInv s"
  have drift: "lifecycleInv (s\<lparr>cloudLeftPos := p, cloudRightPos := q\<rparr>)" for p q
    using inv by (simp add: lifecycleInv_def flagsOrdered_def rainNeedsPlant_def)
  have camera: "lifecycleInv (t\<lparr>cameraPos := c\<rparr>) = lifecycleInv t" for t c
    by (simp add: lifecycleInv_def flagsOrdered_def rainNeedsPlant_def)
  show ?thesis
    unfolding animate_def Let_def camera
    by (intro lifecycleInv_updateSeeds lifecycleInv_updateGrowth lifecycleInv_updateRain drift)
qed

lemma lifecycleInv_step: "lifecycleInv s \<Longrightarrow> lifecycleInv (step e s)"
  by (cases e)
     (simp_all add: lifecycleInv_pointerdown lifecycleInv_pointermove lifecycleInv_startRain
        lifecycleInv_animate, simp add: pointerup_def lifecycleInv_def flagsOrdered_def
        rainNeedsPlant_def)

lemma lifecycleInv_reachable: "reachable s \<Longrightarrow> lifecycleInv s"
  by (induction rule: reachable.induct)
     (simp_all add: initial_def lifecycleInv_reset lifecycleInv_step)

text \<open>
  Claim C10.  In every reachable state the flags respect the order of the lifecycle:
  watered implies planted, blooming implies watered, puff implies watered, and blooming
  and puff never hold together.
\<close>

theorem flags_follow_progression:
  "reachable s \<Longrightarrow>
   (watered s \<longrightarrow> planted s) \<and> (blooming s \<longrightarrow> watered s) \<and> (puff s \<longrightarrow> watered s)
   \<and> \<not> (blooming s \<and> puff s)"
  using lifecycleInv_reachable [of s] by (simp add: lifecycleInv_def flagsOrdered_def)

theorem flags_follow_progression_witness:
  "reachable puffReadyScene \<and> puff puffReadyScene \<and> watered puffReadyScene \<and>
   planted puffReadyScene \<and> \<not> blooming puffReadyScene \<and>
   reachable bloomingScene \<and> blooming bloomingScene \<and> watered bloomingScene \<and>
   \<not> puff bloomingScene"
  using flags_follow_progression [OF puffReadyScene_reachable]
    flags_follow_progression [OF bloomingScene_reachable]
    puffReadyScene_reachable bloomingScene_reachable
    puffReadyScene_views(1) bloomingScene_views(1)
  by (simp add: phaseOf_def)

subsection \<open>Wetness stays in range\<close>

lemma wetnessInRange_phase: "phaseOf t = phaseOf s \<Longrightarrow> wetnessInRange t = wetnessInRange s"
  by (simp add: wetnessInRange_def phaseOf_def)

lemma wetnessInRange_seedStep: "wetnessInRange s \<Longrightarrow> wetnessInRange (seedStep dt elapsed s i)"
  using seedStep_phase [of dt elapsed s i] by (auto simp add: wetnessInRange_def phaseOf_def)

lemma wetnessInRange_updateSeeds:
  "wetnessInRange s \<Longrightarrow> wetnessInRange (updateSeeds dt elapsed s)"
  unfolding updateSeeds_def by (rule foldl_preserves) (rule wetnessInRange_seedStep)

lemma wetnessInRange_updateRain:
  "0 \<le> dt \<Longrightarrow> wetnessInRange s \<Longrightarrow> wetnessInRange (updateRain rnd dt elapsed s)"
  by (auto simp add: updateRain_def Let_def setStatus_def wetnessInRange_def)

lemma wetnessInRange_updateGrowth: "wetnessInRange s \<Longrightarrow> wetnessInRange (updateGrowth dt s)"
  by (auto simp add: updateGrowth_def Let_def setStatus_def wetnessInRange_def)

lemma wetnessInRange_animate:
  assumes "0 \<le> delta" and inv: "wetnessInRange s"
  shows "wetnessInRange (animate delta elapsed rnd s)"
proof -
  have dt: "0 \<le> min delta 0.033" using assms(1) by simp
  have drift: "wetnessInRange (s\<lparr>cloudLeftPos := p, cloudRightPos := q\<rparr>)" for p q
    using inv by (simp add: wetnessInRange_def)
  have camera: "wetnessInRange (t\<lparr>cameraPos := c\<rparr>) = wetnessInRange t" for t c
    by (simp add: wetnessInRange_def)
  show ?thesis
    unfolding animate_def Let_def camera
    by (intro wetnessInRange_updateSeeds wetnessInRange_updateGrowth
        wetnessInRange_updateRain dt drift)
qed

lemma wetnessInRange_pointerdown: "wetnessInRange s \<Longrightarrow> wetnessInRange (pointerdown hit rnd s)"
proof -
  assume inv: "wetnessInRange s"
  have "phaseOf (disperseLoop rnd 36 0 (s\<lparr>puff := False, puffVisible := False,
            budVisible := False\<rparr>)) = phaseOf (s\<lparr>puff := False\<rparr>)"
    by (simp add: disperseLoop_phase) (simp add: phaseOf_def)
  then have "wetnessInRange (disperseSeeds rnd s)"
    using inv by (auto simp add: disperseSeeds_def setStatus_def wetnessInRange_def phaseOf_def)
  with inv show ?thesis
    by (cases hit)
       (auto simp add: pointerdown_def setStatus_def wetnessInRange_def split: option.splits)
qed

lemma wetnessInRange_step:
  "deliverable s e \<Longrightarrow> wetnessInRange s \<Longrightarrow> wetnessInRange (step e s)"
proof (cases e)
  case (PointerDown hit rnd)
  then show "wetnessInRange s \<Longrightarrow> wetnessInRange (step e s)"
    by (simp add: wetnessInRange_pointerdown)
next
  case PointerUp
  then show "wetnessInRange s \<Longrightarrow> wetnessInRange (step e s)"
    by (simp add: pointerup_def wetnessInRange_def)
next
  case (PointerMove hit)
  then show "wetnessInRange s \<Longrightarrow> wetnessInRange (step e s)"
    by (auto simp add: pointermove_def Let_def startRain_def setStatus_def wetnessInRange_def
        split: option.splits)
next
  case RainButtonClick
  then show "wetnessInRange s \<Longrightarrow> wetnessInRange (step e s)"
    by (auto simp add: startRain_def setStatus_def wetnessInRange_def)
next
  case (AnimationFrame delta elapsed rnd)
  then show "deliverable s e \<Longrightarrow> wetnessInRange s \<Longrightarrow> wetnessInRange (step e s)"
    by (simp add: wetnessInRange_animate)
qed

lemma wetnessInRange_reachable: "reachable s \<Longrightarrow> wetnessInRange s"
proof (induction rule: reachable.induct)
  case (reach_initial rnd id0)
  show ?case
    using resetCycle_phase [of None "loaded id0 rnd"]
    by (simp add: initial_def wetnessInRange_def phaseOf_def)
next
  case (reach_step s e)
  then show ?case by (simp add: wetnessInRange_step)
qed

subsection \<open>Dispersal\<close>

lemma windDirection_vy: "vy windDirection = 0"
  by (simp add: windDirection_def normalize_def Let_def)

lemma spawnSeed_seeds:
  assumes "0 \<le> rnd (4 * i + 1)"
  shows "\<exists>sd. seeds (spawnSeed rnd i s) = seeds s @ [sd] \<and> launched s sd"
proof -
  from assms have "0 \<le> rnd (4 * i + 1) * 1.7" by simp
  then have "0 < 1.4 + rnd (4 * i + 1) * 1.7" by linarith
  then show ?thesis
    by (simp add: spawnSeed_def Let_def launched_def budPosition_def v_add_def
        multiplyScalar_def windDirection_vy)
qed

lemma spawnSeed_plantPos: "plantPos (spawnSeed rnd i s) = plantPos s"
  by (simp add: spawnSeed_def Let_def)

lemma launched_cong: "plantPos s = plantPos s' \<Longrightarrow> launched s sd = launched s' sd"
  by (simp add: launched_def budPosition_def)

lemma disperseLoop_seeds:
  assumes "in_unit rnd"
  shows "\<exists>new. seeds (disperseLoop rnd n i s) = seeds s @ new \<and> length new = n
           \<and> list_all (launched s) new"
proof (induction n arbitrary: i s)
  case 0
  show ?case by simp
next
  case (Suc n)
  from assms have "0 \<le> rnd (4 * i + 1)" by (simp add: in_unit_def)
  then obtain sd where sd: "seeds (spawnSeed rnd i s) = seeds s @ [sd]" "launched s sd"
    using spawnSeed_seeds by blast
  obtain new where new:
    "seeds (disperseLoop rnd n (i + 1) (spawnSeed rnd i s)) = seeds (spawnSeed rnd i s) @ new"
    "length new = n" "list_all (launched (spawnSeed rnd i s)) new"
    using Suc.IH by blast
  have "list_all (launched s) new"
    using new(3) launched_cong [OF spawnSeed_plantPos [of rnd i s]] by (simp add: list_all_iff)
  then have "seeds (disperseLoop rnd (Suc n) i s) = seeds s @ (sd # new)
      \<and> length (sd # new) = Suc n \<and> list_all (launched s) (sd # new)"
    using sd new by simp
  then show ?case by blast
qed

lemma disperseLoop_grows:
  "\<exists>new. seeds (disperseLoop rnd n i s) = seeds s @ new \<and> length new = n"
proof (induction n arbitrary: i s)
  case 0
  show ?case by simp
next
  case (Suc n)
  obtain sd where sd: "seeds (spawnSeed rnd i s) = seeds s @ [sd]"
    by (simp add: spawnSeed_def Let_def)
  obtain new where
    "seeds (disperseLoop rnd n (i + 1) (spawnSeed rnd i s)) = seeds (spawnSeed rnd i s) @ new"
    "length new = n"
    using Suc.IH by blast
  then have "seeds (disperseLoop rnd (Suc n) i s) = seeds s @ (sd # new)
      \<and> length (sd # new) = Suc n"
    using sd by simp
  then show ?case by blast
qed

lemma disperseLoop_place:
  "placeOf (disperseLoop rnd n i s)
     = (followedSeed s, activeMound s, plantPos s, length (mounds s), length (seeds s) + n,
        rainButtonDisabled s)"
  by (induction n arbitrary: i s) (simp_all add: spawnSeed_def Let_def placeOf_def)

lemma pointerdown_bud: "puff s \<Longrightarrow> pointerdown (Some ObjBud) rnd s = disperseSeeds rnd s"
  by (simp add: pointerdown_def findSeed_not_seed)

lemma bud_in_puff: "distanceTo (budPosition s) (puffPosition s) = 0.1"
proof -
  have "sqrt (1 / 100) = (1 / 10 :: real)"
    by (rule real_sqrt_unique) (simp_all add: power2_eq_square)
  then show ?thesis
    by (simp add: distanceTo_def budPosition_def puffPosition_def v_add_def Let_def)
qed

text \<open>
  Claim C5, as amended.  A click on the bud while the puff is ready appends exactly 36
  seeds to the seed list.  Each starts at the bud's position \<open>plant.position + (0, 1.8, 0)\<close>,
  the centre of the flower head, which lies 0.1 below the position of the puff group,
  \<open>plant.position + (0, 1.9, 0)\<close>, and each has a vertical velocity above zero, the wind
  being horizontal and random values not being negative.
\<close>

theorem bud_click_disperses:
  assumes "puff s" and "in_unit rnd"
  shows "take (length (seeds s)) (seeds (pointerdown (Some ObjBud) rnd s)) = seeds s \<and>
         length (seeds (pointerdown (Some ObjBud) rnd s)) = length (seeds s) + 36 \<and>
         (\<forall>sd\<in>set (drop (length (seeds s)) (seeds (pointerdown (Some ObjBud) rnd s))).
            position sd = budPosition s \<and> 0 < vy (velocity sd)) \<and>
         distanceTo (budPosition s) (puffPosition s) = 0.1"
proof -
  let ?s0 = "s\<lparr>puff := False, puffVisible := False, budVisible := False\<rparr>"
  obtain new where new: "seeds (disperseLoop rnd 36 0 ?s0) = seeds ?s0 @ new"
    "length new = 36" "list_all (launched ?s0) new"
    using disperseLoop_seeds [OF assms(2)] by blast
  have "seeds (pointerdown (Some ObjBud) rnd s) = seeds s @ new"
    using assms(1) new(1) by (simp add: pointerdown_bud disperseSeeds_def setStatus_def)
  moreover have "list_all (launched s) new"
    using new(3) by (simp add: list_all_iff launched_def budPosition_def)
  ultimately show ?thesis
    using new(2) bud_in_puff by (simp add: list_all_iff launched_def)
qed

lemma click_bud:
  assumes "phaseOf s = (pl, wa, bl, True, ra, w, g)"
  shows "phaseOf (pointerdown (Some ObjBud) rnd s) = (pl, wa, bl, False, ra, w, g)"
    and "placeOf (pointerdown (Some ObjBud) rnd s)
          = (followedSeed s, activeMound s, plantPos s, length (mounds s),
             length (seeds s) + 36, rainButtonDisabled s)"
proof -
  let ?s0 = "s\<lparr>puff := False, puffVisible := False, budVisible := False\<rparr>"
  have p: "puff s" using assms by (simp add: phaseOf_def)
  have "phaseOf (disperseLoop rnd 36 0 ?s0) = phaseOf ?s0"
    by (rule disperseLoop_phase)
  then show "phaseOf (pointerdown (Some ObjBud) rnd s) = (pl, wa, bl, False, ra, w, g)"
    using assms p by (simp add: pointerdown_bud disperseSeeds_def setStatus_def phaseOf_def)
  have "placeOf (disperseSeeds rnd s) = placeOf (disperseLoop rnd 36 0 ?s0)"
    using p by (simp add: disperseSeeds_def setStatus_def placeOf_def)
  then show "placeOf (pointerdown (Some ObjBud) rnd s)
          = (followedSeed s, activeMound s, plantPos s, length (mounds s),
             length (seeds s) + 36, rainButtonDisabled s)"
    using p by (simp add: pointerdown_bud disperseLoop_place)
qed

lemma dispersedScene_views:
  "phaseOf dispersedScene = (True, True, False, False, False, 1, 1)"
  "placeOf dispersedScene = (None, 0, firstMoundPos, 1, 36, True)"
  using click_bud [OF puffReadyScene_views(1), of noDraws] puffReadyScene_views(2)
  by (simp_all add: dispersedScene_def placeOf_def)

lemma dispersedScene_reachable: "reachable dispersedScene"
proof -
  have "deliverable puffReadyScene (PointerDown (Some ObjBud) noDraws)"
    by (simp add: pickCandidates_def in_unit_noDraws)
  with puffReadyScene_reachable show ?thesis
    unfolding dispersedScene_def by (rule reachable.reach_step)
qed

theorem bud_click_disperses_witness:
  "puff puffReadyScene \<and> length (seeds puffReadyScene) = 0 \<and>
   length (seeds dispersedScene) = 36 \<and>
   position (hd (seeds dispersedScene)) = budPosition puffReadyScene \<and>
   0 < vy (velocity (hd (seeds dispersedScene)))"
proof -
  have p: "puff puffReadyScene" and n: "length (seeds puffReadyScene) = 0"
    using puffReadyScene_views by (simp_all add: phaseOf_def placeOf_def)
  note th = bud_click_disperses [OF p in_unit_noDraws]
  have len: "length (seeds dispersedScene) = 36"
    using th n by (simp add: dispersedScene_def)
  then have "seeds dispersedScene \<noteq> []" by auto
  then have "hd (seeds dispersedScene) \<in> set (seeds dispersedScene)" by simp
  then have "position (hd (seeds dispersedScene)) = budPosition puffReadyScene \<and>
     0 < vy (velocity (hd (seeds dispersedScene)))"
    using th n by (simp add: dispersedScene_def)
  then show ?thesis using p n len by simp
qed

text \<open>
  The claim as first stated, with the seeds starting at the puff's position, fails: after
  the first dispersal the first seed is at height 2.25, the bud's, and the puff group at
  height 2.35.
\<close>

lemma dispersedScene_launched:
  "list_all (launched puffReadyScene) (seeds dispersedScene)"
  "seeds dispersedScene \<noteq> []"
proof -
  let ?s0 = "puffReadyScene\<lparr>puff := False, puffVisible := False, budVisible := False\<rparr>"
  have p: "puff puffReadyScene" and e: "seeds puffReadyScene = []"
    using puffReadyScene_views by (simp_all add: phaseOf_def placeOf_def)
  obtain new where new: "seeds (disperseLoop noDraws 36 0 ?s0) = seeds ?s0 @ new"
    "length new = 36" "list_all (launched ?s0) new"
    using disperseLoop_seeds [OF in_unit_noDraws] by blast
  have sd: "seeds dispersedScene = new"
    using p e new(1)
    by (simp add: dispersedScene_def pointerdown_bud disperseSeeds_def setStatus_def)
  show "list_all (launched puffReadyScene) (seeds dispersedScene)"
    unfolding sd using new(3) by (simp add: list_all_iff launched_def budPosition_def)
  show "seeds dispersedScene \<noteq> []"
    unfolding sd using new(2) by auto
qed

theorem seeds_start_below_puff:
  "puff puffReadyScene \<and>
   position (hd (seeds dispersedScene)) = Vector3 0 2.25 0 \<and>
   budPosition puffReadyScene = Vector3 0 2.25 0 \<and>
   puffPosition puffReadyScene = Vector3 0 2.35 0 \<and>
   position (hd (seeds dispersedScene)) \<noteq> puffPosition puffReadyScene"
proof -
  have p: "puff puffReadyScene" and pp: "plantPos puffReadyScene = firstMoundPos"
    using puffReadyScene_views by (simp_all add: phaseOf_def placeOf_def)
  have "hd (seeds dispersedScene) \<in> set (seeds dispersedScene)"
    using dispersedScene_launched(2) by simp
  then have "launched puffReadyScene (hd (seeds dispersedScene))"
    using dispersedScene_launched(1) by (simp add: list_all_iff)
  then have "position (hd (seeds dispersedScene)) = budPosition puffReadyScene"
    by (simp add: launched_def)
  moreover have "budPosition puffReadyScene = Vector3 0 2.25 0"
    and "puffPosition puffReadyScene = Vector3 0 2.35 0"
    by (simp_all add: budPosition_def puffPosition_def pp firstMoundPos_def v_add_def)
  ultimately show ?thesis using p by simp
qed

subsection \<open>A second puff in one cycle\<close>

lemma rebloomScene_views:
  "phaseOf rebloomScene = (True, True, True, False, False, 1, 1)"
  "placeOf rebloomScene = (None, 0, firstMoundPos, 1, 36, True)"
  using click_sun [OF dispersedScene_views(1), of noDraws] dispersedScene_views(2)
  by (simp_all add: rebloomScene_def)

lemma rebloomScene_reachable: "reachable rebloomScene"
proof -
  have "deliverable dispersedScene (PointerDown (Some ObjSun) noDraws)"
    by (simp add: pickCandidates_def in_unit_noDraws)
  with dispersedScene_reachable show ?thesis
    unfolding rebloomScene_def by (rule reachable.reach_step)
qed

lemma secondPuffScene_views:
  "phaseOf secondPuffScene = (True, True, False, True, False, 1, 1)"
  "placeOf secondPuffScene = (None, 0, firstMoundPos, 1, 36, True)"
proof -
  have "followedSeed rebloomScene = None"
    using rebloomScene_views(2) by (simp add: placeOf_def)
  from animate_unfollowed [OF this, of "0.033" 0 noDraws]
  have "phaseOf (step frame rebloomScene) = tick 0.033 (True, True, True, False, False, 1, 1)"
    and "placeOf (step frame rebloomScene) = (None, 0, firstMoundPos, 1, 36, True)"
    unfolding rebloomScene_views by (simp_all add: frame_def)
  then show "phaseOf secondPuffScene = (True, True, False, True, False, 1, 1)"
    and "placeOf secondPuffScene = (None, 0, firstMoundPos, 1, 36, True)"
    by (simp_all add: secondPuffScene_def Let_def)
qed

lemma secondPuffScene_reachable: "reachable secondPuffScene"
proof -
  have "deliverable rebloomScene frame" by (simp add: frame_def in_unit_noDraws)
  with rebloomScene_reachable show ?thesis
    unfolding secondPuffScene_def by (rule reachable.reach_step)
qed

text \<open>
  What the handlers allow after a dispersal.  From page load: plant, rain, 122 frames,
  sun, 138 frames (the puff is ready, growth is 1), a click on the bud (the seeds fly,
  the puff flag is cleared); if the pointer-down handler is then given the sun once more,
  its guard \<open>state.watered && !state.puff\<close> accepts it, and after one frame the puff is
  ready a second time, with no reset in between: the mound is still planted and wet and
  no mound was added, and growth was already 1 and did not rise.  Whether a pointer on
  the screen can pick the sun is a matter of the camera's projection, which the model
  leaves open.
\<close>

lemma second_puff_without_reset:
  "reachable secondPuffScene \<and> puff puffReadyScene \<and> growth puffReadyScene = 1 \<and>
   \<not> puff dispersedScene \<and> \<not> puff rebloomScene \<and> blooming rebloomScene \<and>
   growth rebloomScene = 1 \<and> puff secondPuffScene \<and> growth secondPuffScene = 1 \<and>
   planted dispersedScene \<and> planted rebloomScene \<and> planted secondPuffScene \<and>
   wetness secondPuffScene = 1 \<and> length (mounds secondPuffScene) = 1"
  using secondPuffScene_reachable puffReadyScene_views dispersedScene_views rebloomScene_views
    secondPuffScene_views
  by (simp add: phaseOf_def placeOf_def)

text \<open>While blooming, \<open>updateGrowth\<close> with \<open>dt > 0\<close> raises the growth, up to 1.\<close>

lemma growth_rises_while_blooming:
  assumes "blooming s" and "0 < dt" and "growth s < 1"
  shows "growth s < growth (updateGrowth dt s)" and "growth (updateGrowth dt s) \<le> 1"
    and "puff (updateGrowth dt s) = (puff s \<or> growth (updateGrowth dt s) = 1)"
proof -
  have g: "growth (updateGrowth dt s) = min 1 (growth s + dt * 0.22)"
    using assms(1) by (simp add: updateGrowth_def Let_def setStatus_def)
  have "0 < dt * 0.22" using assms(2) by simp
  then show "growth s < growth (updateGrowth dt s)"
    unfolding g using assms(3) by simp
  show "growth (updateGrowth dt s) \<le> 1" unfolding g by simp
  show "puff (updateGrowth dt s) = (puff s \<or> growth (updateGrowth dt s) = 1)"
    unfolding g using assms(1) by (auto simp add: updateGrowth_def Let_def setStatus_def)
qed

subsection \<open>What a cycle reset touches\<close>

lemma advance_mesh: "mesh (advance dt elapsed sd) = mesh sd"
  by (simp add: advance_def integrate_def Let_def)

lemma resetCycle_seeds_scene:
  "seeds (resetCycle m s) = seeds s" "scene (resetCycle m s) = scene s"
  by (cases m; simp add: resetCycle_def Let_def setStatus_def)+

lemma updateRain_seeds_scene:
  "seeds (updateRain rnd dt elapsed s) = seeds s" "scene (updateRain rnd dt elapsed s) = scene s"
  by (simp_all add: updateRain_def Let_def setStatus_def)

lemma updateGrowth_seeds_scene:
  "seeds (updateGrowth dt s) = seeds s" "scene (updateGrowth dt s) = scene s"
  by (simp_all add: updateGrowth_def Let_def setStatus_def)

lemma seedStep_scene: "set (scene s) \<subseteq> set (scene (seedStep dt elapsed s i))"
  by (simp add: seedStep_def Let_def addMound_def resetCycle_seeds_scene setStatus_def
      subset_insertI2)

lemma updateSeeds_scene: "set (scene s) \<subseteq> set (scene (updateSeeds dt elapsed s))"
proof -
  have "set (scene s) \<subseteq> set (scene (foldl (seedStep dt elapsed) s xs))" for xs
  proof (rule foldl_preserves [where P = "\<lambda>t::world. set (scene s) \<subseteq> set (scene t)"])
    show "set (scene s) \<subseteq> set (scene s)" by simp
  next
    fix t :: world and i
    assume "set (scene s) \<subseteq> set (scene t)"
    then show "set (scene s) \<subseteq> set (scene (seedStep dt elapsed t i))"
      using seedStep_scene [of t dt elapsed i] by blast
  qed
  then show ?thesis by (simp add: updateSeeds_def)
qed

lemma seedsInScene_updateSeeds: "seedsInScene s \<Longrightarrow> seedsInScene (updateSeeds dt elapsed s)"
  using updateSeeds_scene [of s dt elapsed]
  by (auto simp add: seedsInScene_def updateSeeds_seeds advance_mesh)

lemma seedsInScene_spawnSeed: "seedsInScene s \<Longrightarrow> seedsInScene (spawnSeed rnd i s)"
  by (auto simp add: seedsInScene_def spawnSeed_def Let_def)

lemma seedsInScene_disperseLoop: "seedsInScene s \<Longrightarrow> seedsInScene (disperseLoop rnd n i s)"
  by (induction n arbitrary: i s) (simp_all add: seedsInScene_spawnSeed)

lemma seedsInScene_same:
  "seeds t = seeds s \<Longrightarrow> scene t = scene s \<Longrightarrow> seedsInScene t = seedsInScene s"
  by (simp add: seedsInScene_def)

lemma seedsInScene_pointerdown: "seedsInScene s \<Longrightarrow> seedsInScene (pointerdown hit rnd s)"
proof -
  assume inv: "seedsInScene s"
  have "seedsInScene (s\<lparr>puff := False, puffVisible := False, budVisible := False\<rparr>)"
    using inv by (simp add: seedsInScene_def)
  then have "seedsInScene (disperseLoop rnd 36 0
      (s\<lparr>puff := False, puffVisible := False, budVisible := False\<rparr>))"
    by (rule seedsInScene_disperseLoop)
  then have "seedsInScene (disperseSeeds rnd s)"
    using inv by (simp add: disperseSeeds_def setStatus_def seedsInScene_def)
  with inv show ?thesis
    by (cases hit)
       (auto simp add: pointerdown_def setStatus_def seedsInScene_def split: option.splits)
qed

lemma seedsInScene_animate: "seedsInScene s \<Longrightarrow> seedsInScene (animate delta elapsed rnd s)"
proof -
  assume inv: "seedsInScene s"
  have camera: "seedsInScene (t\<lparr>cameraPos := c\<rparr>) = seedsInScene t" for t c
    by (simp add: seedsInScene_def)
  have "seedsInScene (updateGrowth dt (updateRain rnd dt elapsed
          (s\<lparr>cloudLeftPos := p, cloudRightPos := q\<rparr>)))" for dt p q
    using inv
    by (simp add: seedsInScene_def updateGrowth_seeds_scene updateRain_seeds_scene)
  then show ?thesis
    unfolding animate_def Let_def camera by (intro seedsInScene_updateSeeds)
qed

lemma seedsInScene_step: "seedsInScene s \<Longrightarrow> seedsInScene (step e s)"
  by (cases e)
     (simp_all add: seedsInScene_pointerdown seedsInScene_animate,
      simp_all add: seedsInScene_def pointerup_def pointermove_def startRain_def setStatus_def
        Let_def split: option.splits)

lemma seedsInScene_reachable: "reachable s \<Longrightarrow> seedsInScene s"
  by (induction rule: reachable.induct)
     (simp_all add: seedsInScene_step,
      simp add: seedsInScene_def initial_def resetCycle_seeds_scene loaded_def)

text \<open>Every event keeps the seeds there are, in their order; a dispersal adds to the end.\<close>

lemma pointerdown_meshes:
  "\<exists>new. seeds (pointerdown hit rnd s) = seeds s @ new"
proof -
  obtain new where "seeds (disperseLoop rnd 36 0
      (s\<lparr>puff := False, puffVisible := False, budVisible := False\<rparr>)) = seeds s @ new"
    using disperseLoop_grows [of rnd 36 0 "s\<lparr>puff := False, puffVisible := False,
      budVisible := False\<rparr>"] by auto
  then have "\<exists>new. seeds (disperseSeeds rnd s) = seeds s @ new"
    by (simp add: disperseSeeds_def setStatus_def)
  then show ?thesis
    by (cases hit) (auto simp add: pointerdown_def setStatus_def split: option.splits)
qed

lemma animate_seeds:
  "seeds (animate delta elapsed rnd s) = map (advance (min delta 0.033) elapsed) (seeds s)"
  by (simp add: animate_def Let_def updateSeeds_seeds updateGrowth_seeds_scene
      updateRain_seeds_scene)

lemma step_meshes: "\<exists>new. map mesh (seeds (step e s)) = map mesh (seeds s) @ new"
proof (cases e)
  case (PointerDown hit rnd)
  obtain new where "seeds (pointerdown hit rnd s) = seeds s @ new"
    using pointerdown_meshes by blast
  then have "map mesh (seeds (step e s)) = map mesh (seeds s) @ map mesh new"
    using PointerDown by simp
  then show ?thesis by blast
next
  case PointerUp
  then show ?thesis by (simp add: pointerup_def)
next
  case (PointerMove hit)
  then show ?thesis
    by (simp add: pointermove_def startRain_def setStatus_def Let_def split: option.splits)
next
  case RainButtonClick
  then show ?thesis by (simp add: startRain_def setStatus_def)
next
  case (AnimationFrame delta elapsed rnd)
  then show ?thesis by (simp add: animate_seeds advance_mesh comp_def)
qed

lemma run_meshes: "\<exists>new. map mesh (seeds (run es s)) = map mesh (seeds s) @ new"
proof (induction es arbitrary: s)
  case Nil
  show ?case by simp
next
  case (Cons e es)
  obtain a where a: "map mesh (seeds (step e s)) = map mesh (seeds s) @ a"
    using step_meshes by blast
  obtain b where "map mesh (seeds (run es (step e s))) = map mesh (seeds (step e s)) @ b"
    using Cons.IH by blast
  then have "map mesh (seeds (run (e # es) s)) = map mesh (seeds s) @ (a @ b)"
    using a by simp
  then show ?case by blast
qed

text \<open>
  Claim C9, as amended.  \<open>resetCycle\<close> writes the four flags and \<open>rainActive\<close>, wetness,
  growth, the followed seed, the rain opacity, the button's state, the status text, the
  active mound and the plant's visuals, and nothing else: putting those fields back
  gives the state it was called in.  The seed list and the scene are as before, a
  dispersal adds 36 seeds at the end, no event removes or reorders a seed, and every
  seed's mesh is among the pick candidates and, in a reachable state, in the scene.
\<close>

theorem resetCycle_frame:
  "(resetCycle m s)\<lparr>planted := planted s, watered := watered s, blooming := blooming s,
      puff := puff s, rainActive := rainActive s, wetness := wetness s, growth := growth s,
      followedSeed := followedSeed s, rainOpacity := rainOpacity s,
      rainButtonDisabled := rainButtonDisabled s, status := status s,
      activeMound := activeMound s, plantVisible := plantVisible s,
      puffVisible := puffVisible s, budVisible := budVisible s, stemScaleY := stemScaleY s,
      stemPosY := stemPosY s, plantPos := plantPos s\<rparr> = s \<and>
   seeds (resetCycle m s) = seeds s \<and> scene (resetCycle m s) = scene s \<and>
   (puff s \<longrightarrow>
      length (seeds (disperseSeeds rnd s)) = length (seeds s) + 36 \<and>
      take (length (seeds s)) (seeds (disperseSeeds rnd s)) = seeds s) \<and>
   length (seeds s) \<le> length (seeds (run es s)) \<and>
   take (length (seeds s)) (map mesh (seeds (run es s))) = map mesh (seeds s) \<and>
   (\<forall>sd\<in>set (seeds s). ObjSeed (mesh sd) \<in> set (pickCandidates (resetCycle m s))) \<and>
   (reachable s \<longrightarrow> (\<forall>sd\<in>set (seeds s). ObjSeed (mesh sd) \<in> set (scene (resetCycle m s))))"
proof (intro conjI impI)
  show "(resetCycle m s)\<lparr>planted := planted s, watered := watered s, blooming := blooming s,
      puff := puff s, rainActive := rainActive s, wetness := wetness s, growth := growth s,
      followedSeed := followedSeed s, rainOpacity := rainOpacity s,
      rainButtonDisabled := rainButtonDisabled s, status := status s,
      activeMound := activeMound s, plantVisible := plantVisible s,
      puffVisible := puffVisible s, budVisible := budVisible s, stemScaleY := stemScaleY s,
      stemPosY := stemPosY s, plantPos := plantPos s\<rparr> = s"
    by (cases m) (simp_all add: resetCycle_def Let_def setStatus_def)
  show sd: "seeds (resetCycle m s) = seeds s"
    by (rule resetCycle_seeds_scene)
  show sc: "scene (resetCycle m s) = scene s"
    by (rule resetCycle_seeds_scene)
  show "\<forall>sd\<in>set (seeds s). ObjSeed (mesh sd) \<in> set (pickCandidates (resetCycle m s))"
    by (simp add: pickCandidates_def sd)
  obtain new where new: "map mesh (seeds (run es s)) = map mesh (seeds s) @ new"
    using run_meshes by blast
  then have "length (map mesh (seeds (run es s))) = length (map mesh (seeds s) @ new)"
    by simp
  then show "length (seeds s) \<le> length (seeds (run es s))" by simp
  show "take (length (seeds s)) (map mesh (seeds (run es s))) = map mesh (seeds s)"
    by (simp add: new)
next
  assume "puff s"
  obtain new where "seeds (disperseLoop rnd 36 0
      (s\<lparr>puff := False, puffVisible := False, budVisible := False\<rparr>)) = seeds s @ new"
    "length new = 36"
    using disperseLoop_grows [of rnd 36 0 "s\<lparr>puff := False, puffVisible := False,
      budVisible := False\<rparr>"] by auto
  then have "seeds (disperseSeeds rnd s) = seeds s @ new \<and> length new = 36"
    using \<open>puff s\<close> by (simp add: disperseSeeds_def setStatus_def)
  then show "length (seeds (disperseSeeds rnd s)) = length (seeds s) + 36"
    and "take (length (seeds s)) (seeds (disperseSeeds rnd s)) = seeds s"
    by simp_all
next
  assume "reachable s"
  then have "seedsInScene s" by (rule seedsInScene_reachable)
  moreover have "scene (resetCycle m s) = scene s"
    by (rule resetCycle_seeds_scene)
  ultimately show "\<forall>sd\<in>set (seeds s). ObjSeed (mesh sd) \<in> set (scene (resetCycle m s))"
    by (simp add: seedsInScene_def)
qed

text \<open>
  The claim as first stated leaves the status text out of what \<open>resetCycle\<close> writes.
  In the planted scene the status is the planting message; after a reset it is the
  opening message, and restoring every field the claim lists does not bring the state
  back.
\<close>

theorem resetCycle_writes_status:
  "status plantedScene = ''Great. Make it rain (button or drag clouds together).'' \<and>
   status (resetCycle None plantedScene) = ''Click the mound to plant a seed.'' \<and>
   (resetCycle None plantedScene)\<lparr>planted := planted plantedScene,
      watered := watered plantedScene, blooming := blooming plantedScene,
      puff := puff plantedScene, rainActive := rainActive plantedScene,
      wetness := wetness plantedScene, growth := growth plantedScene,
      followedSeed := followedSeed plantedScene, rainOpacity := rainOpacity plantedScene,
      rainButtonDisabled := rainButtonDisabled plantedScene,
      activeMound := activeMound plantedScene, plantVisible := plantVisible plantedScene,
      puffVisible := puffVisible plantedScene, budVisible := budVisible plantedScene,
      stemScaleY := stemScaleY plantedScene, stemPosY := stemPosY plantedScene,
      plantPos := plantPos plantedScene\<rparr> \<noteq> plantedScene"
proof -
  have a: "status plantedScene = ''Great. Make it rain (button or drag clouds together).''"
    using freshScene_views
    by (simp add: plantedScene_def pointerdown_def setStatus_def phaseOf_def placeOf_def)
  have b: "status (resetCycle None plantedScene) = ''Click the mound to plant a seed.''"
    by (simp add: resetCycle_def Let_def setStatus_def)
  let ?r = "(resetCycle None plantedScene)\<lparr>planted := planted plantedScene,
      watered := watered plantedScene, blooming := blooming plantedScene,
      puff := puff plantedScene, rainActive := rainActive plantedScene,
      wetness := wetness plantedScene, growth := growth plantedScene,
      followedSeed := followedSeed plantedScene, rainOpacity := rainOpacity plantedScene,
      rainButtonDisabled := rainButtonDisabled plantedScene,
      activeMound := activeMound plantedScene, plantVisible := plantVisible plantedScene,
      puffVisible := puffVisible plantedScene, budVisible := budVisible plantedScene,
      stemScaleY := stemScaleY plantedScene, stemPosY := stemPosY plantedScene,
      plantPos := plantPos plantedScene\<rparr>"
  have "status ?r = ''Click the mound to plant a seed.''"
    by (simp add: resetCycle_def Let_def setStatus_def)
  then have "status ?r \<noteq> status plantedScene" using a by simp
  then have "?r \<noteq> plantedScene" by (rule contrapos_nn) (rule arg_cong)
  then show ?thesis using a b by blast
qed

theorem resetCycle_frame_witness:
  "reachable secondPuffScene \<and> puff secondPuffScene \<and> length (seeds secondPuffScene) = 36 \<and>
   length (seeds (disperseSeeds noDraws secondPuffScene)) = 72 \<and>
   seeds (resetCycle None secondPuffScene) = seeds secondPuffScene \<and>
   ObjSeed (mesh (hd (seeds secondPuffScene)))
     \<in> set (pickCandidates (resetCycle None secondPuffScene)) \<and>
   ObjSeed (mesh (hd (seeds secondPuffScene))) \<in> set (scene (resetCycle None secondPuffScene))"
proof -
  note th = resetCycle_frame [where m = None and s = secondPuffScene and rnd = noDraws
      and es = "[]"]
  have p: "puff secondPuffScene" and n: "length (seeds secondPuffScene) = 36"
    using secondPuffScene_views by (simp_all add: phaseOf_def placeOf_def)
  from n have "seeds secondPuffScene \<noteq> []" by auto
  then have h: "hd (seeds secondPuffScene) \<in> set (seeds secondPuffScene)" by simp
  have "length (seeds (disperseSeeds noDraws secondPuffScene)) = 72"
    using th p n by simp
  moreover have "ObjSeed (mesh (hd (seeds secondPuffScene)))
     \<in> set (pickCandidates (resetCycle None secondPuffScene))"
    using th h by blast
  moreover have "ObjSeed (mesh (hd (seeds secondPuffScene)))
     \<in> set (scene (resetCycle None secondPuffScene))"
    using th h secondPuffScene_reachable by blast
  moreover have "seeds (resetCycle None secondPuffScene) = seeds secondPuffScene"
    using th by blast
  ultimately show ?thesis using p n secondPuffScene_reachable by simp
qed

subsection \<open>Landing\<close>

lemma newCycleAt_seeds: "newCycleAt p (s\<lparr>seeds := sds\<rparr>) = (newCycleAt p s)\<lparr>seeds := sds\<rparr>"
  by (simp add: newCycleAt_def addMound_def resetCycle_def setStatus_def Let_def)

lemma newCycleAt_followedSeed: "followedSeed (newCycleAt p s) = None"
  by (simp add: newCycleAt_def addMound_def resetCycle_def setStatus_def Let_def)

lemma seedStep_lands:
  assumes "followedSeed s = Some i" and "active (seeds s ! i)" and "\<not> landed (seeds s ! i)"
    and "vy (position (integrate dt elapsed (seeds s ! i))) \<le> 0.45"
  shows "seedStep dt elapsed s i
           = (newCycleAt (position (integrate dt elapsed (seeds s ! i))) s)
               \<lparr>seeds := seeds (seedStep dt elapsed s i)\<rparr>"
proof -
  let ?sd1 = "integrate dt elapsed (seeds s ! i)"
  let ?p = "Vector3 (vx (position ?sd1)) 0.45 (vz (position ?sd1))"
  let ?sds = "(seeds s)[i := ?sd1\<lparr>position := ?p, velocity := Vector3 0 0 0, landed := True\<rparr>]"
  have "seedStep dt elapsed s i = newCycleAt (position ?sd1) (s\<lparr>seeds := ?sds\<rparr>)"
    using assms by (simp add: seedStep_def Let_def newCycleAt_def addMound_def)
  then have st: "seedStep dt elapsed s i = (newCycleAt (position ?sd1) s)\<lparr>seeds := ?sds\<rparr>"
    by (simp only: newCycleAt_seeds)
  have "seeds (seedStep dt elapsed s i) = ?sds"
    by (subst st) simp
  with st show ?thesis by simp
qed

lemma updateSeeds_lands:
  assumes f: "followedSeed s = Some i" and i: "i < length (seeds s)"
    and a: "active (seeds s ! i)" and l: "\<not> landed (seeds s ! i)"
    and c: "vy (position (integrate dt elapsed (seeds s ! i))) \<le> 0.45"
  shows "updateSeeds dt elapsed s
           = (newCycleAt (position (integrate dt elapsed (seeds s ! i))) s)
               \<lparr>seeds := map (advance dt elapsed) (seeds s)\<rparr>"
proof -
  let ?f = "seedStep dt elapsed"
  let ?n = "length (seeds s)"
  let ?p = "position (integrate dt elapsed (seeds s ! i))"
  let ?t1 = "foldl ?f s [0..<i]"
  let ?t2 = "?f ?t1 i"
  have split: "[0..<?n] = [0..<i] @ i # [Suc i..<?n]"
    using i by (metis le0 upt_add_eq_append upt_conv_Cons le_add_diff_inverse less_imp_le_nat)
  have "followedSeed s \<notin> Some ` set [0..<i]" using f by auto
  then have t1: "?t1 = s\<lparr>seeds := seeds ?t1\<rparr>"
    by (rule foldl_seedStep_unfollowed)
  have "seeds ?t1 = map (advance dt elapsed) (take i (seeds s)) @ drop i (seeds s)"
    using i by (simp add: foldl_seedStep_seeds)
  then have at: "seeds ?t1 ! i = seeds s ! i"
    using i by (simp add: nth_append)
  have f1: "followedSeed ?t1 = Some i"
    by (subst t1) (simp add: f)
  have a1: "active (seeds ?t1 ! i)" and l1: "\<not> landed (seeds ?t1 ! i)"
    and c1: "vy (position (integrate dt elapsed (seeds ?t1 ! i))) \<le> 0.45"
    using a l c by (simp_all add: at)
  have "?t2 = (newCycleAt (position (integrate dt elapsed (seeds ?t1 ! i))) ?t1)
                \<lparr>seeds := seeds ?t2\<rparr>"
    using f1 a1 l1 c1 by (rule seedStep_lands)
  then have "?t2 = (newCycleAt ?p ?t1)\<lparr>seeds := seeds ?t2\<rparr>"
    by (simp only: at)
  then have "?t2 = (newCycleAt ?p (s\<lparr>seeds := seeds ?t1\<rparr>))\<lparr>seeds := seeds ?t2\<rparr>"
    using t1 by simp
  then have t2: "?t2 = (newCycleAt ?p s)\<lparr>seeds := seeds ?t2\<rparr>"
    by (simp add: newCycleAt_seeds)
  have "followedSeed ?t2 = followedSeed ((newCycleAt ?p s)\<lparr>seeds := seeds ?t2\<rparr>)"
    by (rule arg_cong [OF t2])
  then have "followedSeed ?t2 = None"
    by (simp add: newCycleAt_followedSeed)
  then have "followedSeed ?t2 \<notin> Some ` set [Suc i..<?n]" by simp
  then have "foldl ?f ?t2 [Suc i..<?n] = ?t2\<lparr>seeds := seeds (foldl ?f ?t2 [Suc i..<?n])\<rparr>"
    by (rule foldl_seedStep_unfollowed)
  moreover have "updateSeeds dt elapsed s = foldl ?f ?t2 [Suc i..<?n]"
    unfolding updateSeeds_def by (subst split) simp
  ultimately have "updateSeeds dt elapsed s
      = ?t2\<lparr>seeds := seeds (updateSeeds dt elapsed s)\<rparr>"
    by simp
  also have "\<dots> = (newCycleAt ?p s)\<lparr>seeds := seeds (updateSeeds dt elapsed s)\<rparr>"
    by (subst t2) simp
  finally show ?thesis
    by (simp add: updateSeeds_seeds)
qed

lemma seeds_views:
  "phaseOf (t\<lparr>seeds := x\<rparr>) = phaseOf t"
  "placeOf (t\<lparr>seeds := x\<rparr>)
     = (followedSeed t, activeMound t, plantPos t, length (mounds t), length x,
        rainButtonDisabled t)"
  "mounds (t\<lparr>seeds := x\<rparr>) = mounds t"
  "puffVisible (t\<lparr>seeds := x\<rparr>) = puffVisible t"
  by (simp_all add: phaseOf_def placeOf_def)

lemma camera_views:
  "phaseOf (t\<lparr>cameraPos := c\<rparr>) = phaseOf t"
  "placeOf (t\<lparr>cameraPos := c\<rparr>) = placeOf t"
  "mounds (t\<lparr>cameraPos := c\<rparr>) = mounds t"
  "puffVisible (t\<lparr>cameraPos := c\<rparr>) = puffVisible t"
  by (simp_all add: phaseOf_def placeOf_def)

lemma newCycleAt_views:
  "phaseOf (newCycleAt p s) = (False, False, False, False, False, 0, 0)"
  "placeOf (newCycleAt p s)
     = (None, length (mounds s), Vector3 (vx p) 0.45 (vz p), length (mounds s) + 1,
        length (seeds s), False)"
  "mounds (newCycleAt p s)
     = mounds s @ [\<lparr>mpos = Vector3 (vx p) 0.45 (vz p), mcolor = Hex ''#795641'',
                     mroughness = 0.95\<rparr>]"
  "puffVisible (newCycleAt p s) = False"
  by (simp_all add: newCycleAt_def addMound_def resetCycle_def setStatus_def Let_def
      phaseOf_def placeOf_def)

lemma map_update_same: "(map f xs)[k := f (xs ! k)] = map f xs"
  by (metis list_update_id map_update)

lemma updateRain_mounds:
  "length (mounds (updateRain rnd dt elapsed s)) = length (mounds s)"
  "map mpos (mounds (updateRain rnd dt elapsed s)) = map mpos (mounds s)"
proof -
  let ?k = "activeMound s"
  let ?w = "if rainActive s then min 1 (wetness s + dt * 0.25) else wetness s"
  have m: "mounds (updateRain rnd dt elapsed s)
      = (mounds s)[?k := (mounds s ! ?k)\<lparr>mcolor := Mix (Hex ''#795641'') (Hex ''#50392b'') ?w,
            mroughness := lerp 0.95 0.35 ?w\<rparr>]"
    by (simp add: updateRain_def Let_def setStatus_def)
  show "length (mounds (updateRain rnd dt elapsed s)) = length (mounds s)"
    by (simp add: m)
  show "map mpos (mounds (updateRain rnd dt elapsed s)) = map mpos (mounds s)"
    unfolding m by (simp add: map_update map_update_same)
qed

lemma updateGrowth_mounds: "mounds (updateGrowth dt s) = mounds s"
  by (simp add: updateGrowth_def Let_def setStatus_def)

lemma updateRain_followed: "followedSeed (updateRain rnd dt elapsed s) = followedSeed s"
  using updateRain_place [of rnd dt elapsed s] by (simp add: placeOf_def)

lemma updateGrowth_followed: "followedSeed (updateGrowth dt s) = followedSeed s"
  using updateGrowth_place [of dt s] by (simp add: placeOf_def)

text \<open>
  Claim C3.  In the frame in which the followed seed comes down to the ground level
  0.45, a mound is added at the seed's landing \<open>(x, z)\<close> and becomes the active mound,
  the plant is moved there, and the cycle is reset: all flags are cleared, wetness and
  growth are 0, the puff is hidden and no seed is followed any more.
\<close>

theorem followed_seed_landing_resets:
  assumes "followedSeed s = Some i" and "i < length (seeds s)"
    and "active (seeds s ! i)" and "\<not> landed (seeds s ! i)"
    and "vy (position (integrate (min delta 0.033) elapsed (seeds s ! i))) \<le> 0.45"
  shows "(let p = position (integrate (min delta 0.033) elapsed (seeds s ! i));
              s' = animate delta elapsed rnd s
          in position (seeds s' ! i) = Vector3 (vx p) 0.45 (vz p) \<and>
             length (mounds s') = length (mounds s) + 1 \<and>
             take (length (mounds s)) (map mpos (mounds s')) = map mpos (mounds s) \<and>
             activeMound s' = length (mounds s) \<and>
             mpos (mounds s' ! activeMound s') = Vector3 (vx p) 0.45 (vz p) \<and>
             plantPos s' = Vector3 (vx p) 0.45 (vz p) \<and>
             \<not> planted s' \<and> \<not> watered s' \<and> \<not> blooming s' \<and> \<not> puff s' \<and>
             \<not> rainActive s' \<and> wetness s' = 0 \<and> growth s' = 0 \<and>
             \<not> puffVisible s' \<and> followedSeed s' = None)"
proof -
  let ?dt = "min delta 0.033"
  let ?p = "position (integrate ?dt elapsed (seeds s ! i))"
  let ?s1 = "s\<lparr>cloudLeftPos := Vector3 (vx (cloudLeftPos s) + sin (elapsed * 0.25) * 0.002)
                   (vy (cloudLeftPos s)) (vz (cloudLeftPos s)),
               cloudRightPos := Vector3 (vx (cloudRightPos s) - sin (elapsed * 0.22) * 0.002)
                   (vy (cloudRightPos s)) (vz (cloudRightPos s))\<rparr>"
  let ?s3 = "updateGrowth ?dt (updateRain rnd ?dt elapsed ?s1)"
  let ?s4 = "updateSeeds ?dt elapsed ?s3"
  let ?s' = "animate delta elapsed rnd s"
  have sd3: "seeds ?s3 = seeds s"
    by (simp add: updateGrowth_seeds_scene updateRain_seeds_scene)
  have f3: "followedSeed ?s3 = Some i"
    using assms(1) by (simp add: updateGrowth_followed updateRain_followed)
  have len3: "length (mounds ?s3) = length (mounds s)"
    by (simp add: updateGrowth_mounds updateRain_mounds)
  have pos3: "map mpos (mounds ?s3) = map mpos (mounds s)"
    by (simp add: updateGrowth_mounds updateRain_mounds)
  have h3: "i < length (seeds ?s3)" "active (seeds ?s3 ! i)" "\<not> landed (seeds ?s3 ! i)"
    "vy (position (integrate ?dt elapsed (seeds ?s3 ! i))) \<le> 0.45"
    using assms(2-5) unfolding sd3 by simp_all
  have "?s4 = (newCycleAt (position (integrate ?dt elapsed (seeds ?s3 ! i))) ?s3)
                \<lparr>seeds := map (advance ?dt elapsed) (seeds ?s3)\<rparr>"
    using f3 h3 by (rule updateSeeds_lands)
  then have s4: "?s4 = (newCycleAt ?p ?s3)\<lparr>seeds := map (advance ?dt elapsed) (seeds s)\<rparr>"
    by (simp only: sd3)
  have an: "?s' =
      ?s4\<lparr>cameraPos := v_lerp (cameraPos ?s4)
         (v_add (case followedSeed ?s4 of Some i \<Rightarrow> position (seeds ?s4 ! i)
                  | None \<Rightarrow> mpos (mounds ?s4 ! activeMound ?s4)) (Vector3 7.5 5.5 8)) 0.02\<rparr>"
    unfolding animate_def Let_def ..
  have ph: "phaseOf ?s' = (False, False, False, False, False, 0, 0)"
    unfolding an camera_views s4 seeds_views by (rule newCycleAt_views(1))
  have pl: "placeOf ?s'
     = (None, length (mounds s), Vector3 (vx ?p) 0.45 (vz ?p), length (mounds s) + 1,
        length (seeds s), False)"
    unfolding an camera_views s4 seeds_views
    using newCycleAt_views(2) [of ?p ?s3] len3 by (simp add: placeOf_def)
  have mo: "mounds ?s' = mounds ?s3 @ [\<lparr>mpos = Vector3 (vx ?p) 0.45 (vz ?p),
      mcolor = Hex ''#795641'', mroughness = 0.95\<rparr>]"
    unfolding an camera_views s4 seeds_views by (rule newCycleAt_views(3))
  have pv: "\<not> puffVisible ?s'"
    unfolding an camera_views s4 seeds_views newCycleAt_views(4) by simp
  have "seeds ?s' = map (advance ?dt elapsed) (seeds s)"
    by (rule animate_seeds)
  then have "seeds ?s' ! i = advance ?dt elapsed (seeds s ! i)"
    using assms(2) by simp
  then have se: "position (seeds ?s' ! i) = Vector3 (vx ?p) 0.45 (vz ?p)"
    using assms(3-5) by (simp add: advance_def Let_def)
  have a: "mpos (mounds ?s' ! length (mounds s)) = Vector3 (vx ?p) 0.45 (vz ?p)"
    unfolding mo using len3 by (simp add: nth_append)
  have b: "take (length (mounds s)) (map mpos (mounds ?s')) = map mpos (mounds s)"
    unfolding mo using len3 pos3 by simp
  show ?thesis
    unfolding Let_def
    using ph pl pv se a b by (simp add: phaseOf_def placeOf_def)
qed

subsection \<open>Landed seeds\<close>

lemma advance_landed: "landed sd \<Longrightarrow> advance dt elapsed sd = sd"
  by (simp add: advance_def)

lemma advance_crossing:
  assumes "active sd" and "\<not> landed sd" and "vy (position (integrate dt elapsed sd)) \<le> 0.45"
  shows "landed (advance dt elapsed sd)" and "velocity (advance dt elapsed sd) = Vector3 0 0 0"
    and "vy (position (advance dt elapsed sd)) = 0.45"
  using assms by (simp_all add: advance_def Let_def)

lemma advance_rests: "restsIfLanded sd \<Longrightarrow> restsIfLanded (advance dt elapsed sd)"
  by (simp add: advance_def restsIfLanded_def Let_def integrate_def)

lemma step_landed_fixed:
  assumes "i < length (seeds s)" and "landed (seeds s ! i)"
  shows "i < length (seeds (step e s)) \<and> seeds (step e s) ! i = seeds s ! i"
proof (cases e)
  case (PointerDown hit rnd)
  obtain new where "seeds (pointerdown hit rnd s) = seeds s @ new"
    using pointerdown_meshes by blast
  then show ?thesis using PointerDown assms(1) by (simp add: nth_append)
next
  case PointerUp
  then show ?thesis using assms(1) by (simp add: pointerup_def)
next
  case (PointerMove hit)
  then show ?thesis
    using assms(1)
    by (simp add: pointermove_def startRain_def setStatus_def Let_def split: option.splits)
next
  case RainButtonClick
  then show ?thesis using assms(1) by (simp add: startRain_def setStatus_def)
next
  case (AnimationFrame delta elapsed rnd)
  then show ?thesis using assms by (simp add: animate_seeds advance_landed)
qed

lemma run_landed_fixed:
  "i < length (seeds s) \<Longrightarrow> landed (seeds s ! i) \<Longrightarrow>
   i < length (seeds (run es s)) \<and> seeds (run es s) ! i = seeds s ! i"
proof (induction es arbitrary: s)
  case Nil
  then show ?case by simp
next
  case (Cons e es)
  have a: "i < length (seeds (step e s))" "seeds (step e s) ! i = seeds s ! i"
    using step_landed_fixed [OF Cons.prems] by simp_all
  then have "landed (seeds (step e s) ! i)" using Cons.prems(2) by simp
  from Cons.IH [OF a(1) this] show ?case using a(2) by simp
qed

lemma disperseLoop_unlanded:
  "\<exists>new. seeds (disperseLoop rnd n i s) = seeds s @ new \<and> list_all restsIfLanded new"
proof (induction n arbitrary: i s)
  case 0
  show ?case by simp
next
  case (Suc n)
  obtain sd where sd: "seeds (spawnSeed rnd i s) = seeds s @ [sd]" "restsIfLanded sd"
    by (simp add: spawnSeed_def Let_def restsIfLanded_def)
  obtain new where
    "seeds (disperseLoop rnd n (i + 1) (spawnSeed rnd i s)) = seeds (spawnSeed rnd i s) @ new"
    "list_all restsIfLanded new"
    using Suc.IH by blast
  then have "seeds (disperseLoop rnd (Suc n) i s) = seeds s @ (sd # new)
      \<and> list_all restsIfLanded (sd # new)"
    using sd by simp
  then show ?case by blast
qed

lemma rests_pointerdown:
  assumes "list_all restsIfLanded (seeds s)"
  shows "list_all restsIfLanded (seeds (pointerdown hit rnd s))"
proof -
  obtain new where "seeds (disperseLoop rnd 36 0
      (s\<lparr>puff := False, puffVisible := False, budVisible := False\<rparr>)) = seeds s @ new"
    "list_all restsIfLanded new"
    using disperseLoop_unlanded [of rnd 36 0 "s\<lparr>puff := False, puffVisible := False,
      budVisible := False\<rparr>"] by auto
  then have "list_all restsIfLanded (seeds (disperseSeeds rnd s))"
    using assms by (simp add: disperseSeeds_def setStatus_def)
  with assms show ?thesis
    by (cases hit) (auto simp add: pointerdown_def setStatus_def split: option.splits)
qed

lemma rests_step:
  assumes "list_all restsIfLanded (seeds s)"
  shows "list_all restsIfLanded (seeds (step e s))"
proof (cases e)
  case (PointerDown hit rnd)
  then show ?thesis using assms by (simp add: rests_pointerdown)
next
  case PointerUp
  then show ?thesis using assms by (simp add: pointerup_def)
next
  case (PointerMove hit)
  then show ?thesis
    using assms
    by (simp add: pointermove_def startRain_def setStatus_def Let_def split: option.splits)
next
  case RainButtonClick
  then show ?thesis using assms by (simp add: startRain_def setStatus_def)
next
  case (AnimationFrame delta elapsed rnd)
  then show ?thesis using assms by (simp add: animate_seeds list_all_iff advance_rests)
qed

lemma rests_reachable: "reachable s \<Longrightarrow> list_all restsIfLanded (seeds s)"
  by (induction rule: reachable.induct)
     (simp_all add: rests_step, simp add: initial_def resetCycle_seeds_scene loaded_def)

text \<open>
  Claim C6.  In the frame in which a flying seed comes down to the height 0.45 it is
  marked landed, its velocity is set to zero and its height to 0.45; from then on no
  event, frame or click, changes the seed's record.  In every reachable state a landed
  seed has zero velocity and stands at height 0.45.
\<close>

theorem landed_seed_rests:
  "(i < length (seeds s) \<and> active (seeds s ! i) \<and> \<not> landed (seeds s ! i) \<and>
      vy (position (integrate (min delta 0.033) elapsed (seeds s ! i))) \<le> 0.45 \<longrightarrow>
      i < length (seeds (animate delta elapsed rnd s)) \<and>
      landed (seeds (animate delta elapsed rnd s) ! i) \<and>
      velocity (seeds (animate delta elapsed rnd s) ! i) = Vector3 0 0 0 \<and>
      vy (position (seeds (animate delta elapsed rnd s) ! i)) = 0.45) \<and>
   (i < length (seeds s) \<and> landed (seeds s ! i) \<longrightarrow>
      i < length (seeds (run es s)) \<and> seeds (run es s) ! i = seeds s ! i) \<and>
   (reachable s \<longrightarrow>
      (\<forall>sd\<in>set (seeds s). landed sd \<longrightarrow>
         velocity sd = Vector3 0 0 0 \<and> vy (position sd) = 0.45))"
proof (intro conjI impI)
  assume a: "i < length (seeds s) \<and> active (seeds s ! i) \<and> \<not> landed (seeds s ! i) \<and>
      vy (position (integrate (min delta 0.033) elapsed (seeds s ! i))) \<le> 0.45"
  have sd: "seeds (animate delta elapsed rnd s) ! i
      = advance (min delta 0.033) elapsed (seeds s ! i)"
    using a by (simp add: animate_seeds)
  show "i < length (seeds (animate delta elapsed rnd s))"
    using a by (simp add: animate_seeds)
  show "landed (seeds (animate delta elapsed rnd s) ! i)"
    and "velocity (seeds (animate delta elapsed rnd s) ! i) = Vector3 0 0 0"
    and "vy (position (seeds (animate delta elapsed rnd s) ! i)) = 0.45"
    unfolding sd using a by (simp_all add: advance_crossing)
next
  assume "i < length (seeds s) \<and> landed (seeds s ! i)"
  then show "i < length (seeds (run es s))" and "seeds (run es s) ! i = seeds s ! i"
    using run_landed_fixed [of i s es] by simp_all
next
  assume "reachable s"
  then have "list_all restsIfLanded (seeds s)" by (rule rests_reachable)
  then show "\<forall>sd\<in>set (seeds s). landed sd \<longrightarrow>
      velocity sd = Vector3 0 0 0 \<and> vy (position sd) = 0.45"
    by (simp add: list_all_iff restsIfLanded_def)
qed

subsection \<open>A followed seed from launch to landing\<close>

lemma integrate_vy:
  "vy (velocity (integrate dt elapsed sd)) = vy (velocity sd) - 1.2 * dt"
  "vy (position (integrate dt elapsed sd)) = vy (position sd) + (vy (velocity sd) - 1.2 * dt) * dt"
  by (simp_all add: integrate_def Let_def addScaledVector_def windDirection_vy)

lemma integrate_active:
  "active (integrate dt elapsed sd) = active sd" "landed (integrate dt elapsed sd) = landed sd"
  by (simp_all add: integrate_def Let_def)

lemma advance_altitude:
  assumes "active sd"
  shows "altitude (advance dt elapsed sd) = descend dt (altitude sd)"
    and "active (advance dt elapsed sd)"
  using assms
  by (simp_all add: advance_def altitude_def Let_def integrate_vy integrate_active)

lemma descend_stays_landed: "(descend dt ^^ n) (y, v, True) = (y, v, True)"
  by (induction n) simp_all

lemma descend_in_flight:
  assumes "(descend dt ^^ n) (descend dt a) = (y, v, False)"
  shows "\<exists>y1 v1. descend dt a = (y1, v1, False)"
proof -
  obtain y1 v1 l1 where d: "descend dt a = (y1, v1, l1)"
    by (cases "descend dt a") auto
  have "\<not> l1"
  proof
    assume "l1"
    then have "(descend dt ^^ n) (descend dt a) = (y1, v1, True)"
      using d by (simp add: descend_stays_landed)
    with assms show False by simp
  qed
  with d show ?thesis by simp
qed

lemma in_flight_no_landing:
  assumes "descend dt (altitude sd) = (y1, v1, False)"
  shows "\<not> landed sd" and "\<not> vy (position (integrate dt elapsed sd)) \<le> 0.45"
proof -
  show l: "\<not> landed sd"
    using assms by (auto simp add: altitude_def)
  show "\<not> vy (position (integrate dt elapsed sd)) \<le> 0.45"
    using assms l by (auto simp add: altitude_def Let_def integrate_vy split: if_splits)
qed

lemma seedStep_no_reset:
  "\<not> vy (position (integrate dt elapsed (seeds s ! i))) \<le> 0.45 \<Longrightarrow>
   seedStep dt elapsed s i = s\<lparr>seeds := seeds (seedStep dt elapsed s i)\<rparr>"
  by (simp add: seedStep_def Let_def)

lemma updateSeeds_in_flight:
  assumes i: "i < length (seeds s)" and f: "followedSeed s = Some i"
    and c: "\<not> vy (position (integrate dt elapsed (seeds s ! i))) \<le> 0.45"
  shows "updateSeeds dt elapsed s = s\<lparr>seeds := seeds (updateSeeds dt elapsed s)\<rparr>"
proof -
  let ?f = "seedStep dt elapsed"
  let ?n = "length (seeds s)"
  let ?t1 = "foldl ?f s [0..<i]"
  let ?t2 = "?f ?t1 i"
  have split: "[0..<?n] = [0..<i] @ i # [Suc i..<?n]"
    using i by (metis le0 upt_add_eq_append upt_conv_Cons le_add_diff_inverse less_imp_le_nat)
  have "followedSeed s \<notin> Some ` set [0..<i]" using f by auto
  then have t1: "?t1 = s\<lparr>seeds := seeds ?t1\<rparr>"
    by (rule foldl_seedStep_unfollowed)
  have "seeds ?t1 = map (advance dt elapsed) (take i (seeds s)) @ drop i (seeds s)"
    using i by (simp add: foldl_seedStep_seeds)
  then have at: "seeds ?t1 ! i = seeds s ! i"
    using i by (simp add: nth_append)
  have c1: "\<not> vy (position (integrate dt elapsed (seeds ?t1 ! i))) \<le> 0.45"
    using c by (simp add: at)
  have "?t2 = ?t1\<lparr>seeds := seeds ?t2\<rparr>"
    using c1 by (rule seedStep_no_reset)
  then have "?t2 = (s\<lparr>seeds := seeds ?t1\<rparr>)\<lparr>seeds := seeds ?t2\<rparr>"
    using t1 by simp
  then have t2: "?t2 = s\<lparr>seeds := seeds ?t2\<rparr>" by simp
  have "followedSeed ?t2 = followedSeed (s\<lparr>seeds := seeds ?t2\<rparr>)"
    by (rule arg_cong [OF t2])
  then have "followedSeed ?t2 \<notin> Some ` set [Suc i..<?n]"
    using f by auto
  then have "foldl ?f ?t2 [Suc i..<?n] = ?t2\<lparr>seeds := seeds (foldl ?f ?t2 [Suc i..<?n])\<rparr>"
    by (rule foldl_seedStep_unfollowed)
  moreover have "updateSeeds dt elapsed s = foldl ?f ?t2 [Suc i..<?n]"
    unfolding updateSeeds_def by (subst split) simp
  ultimately have "updateSeeds dt elapsed s
      = ?t2\<lparr>seeds := seeds (updateSeeds dt elapsed s)\<rparr>"
    by simp
  also have "\<dots> = s\<lparr>seeds := seeds (updateSeeds dt elapsed s)\<rparr>"
    by (subst t2) simp
  finally show ?thesis .
qed

lemma animate_in_flight:
  assumes i: "i < length (seeds s)" and f: "followedSeed s = Some i"
    and c: "\<not> vy (position (integrate (min delta 0.033) elapsed (seeds s ! i))) \<le> 0.45"
  shows "phaseOf (animate delta elapsed rnd s) = tick (min delta 0.033) (phaseOf s)"
    and "placeOf (animate delta elapsed rnd s) = placeOf s"
proof -
  let ?dt = "min delta 0.033"
  let ?s1 = "s\<lparr>cloudLeftPos := Vector3 (vx (cloudLeftPos s) + sin (elapsed * 0.25) * 0.002)
                   (vy (cloudLeftPos s)) (vz (cloudLeftPos s)),
               cloudRightPos := Vector3 (vx (cloudRightPos s) - sin (elapsed * 0.22) * 0.002)
                   (vy (cloudRightPos s)) (vz (cloudRightPos s))\<rparr>"
  let ?s3 = "updateGrowth ?dt (updateRain rnd ?dt elapsed ?s1)"
  let ?s4 = "updateSeeds ?dt elapsed ?s3"
  have sd3: "seeds ?s3 = seeds s"
    by (simp add: updateGrowth_seeds_scene updateRain_seeds_scene)
  have f3: "followedSeed ?s3 = Some i"
    using f by (simp add: updateGrowth_followed updateRain_followed)
  have h3: "i < length (seeds ?s3)"
    "\<not> vy (position (integrate ?dt elapsed (seeds ?s3 ! i))) \<le> 0.45"
    using i c unfolding sd3 by simp_all
  have s4: "?s4 = ?s3\<lparr>seeds := seeds ?s4\<rparr>"
    using h3(1) f3 h3(2) by (rule updateSeeds_in_flight)
  have an: "animate delta elapsed rnd s =
      ?s4\<lparr>cameraPos := v_lerp (cameraPos ?s4)
         (v_add (case followedSeed ?s4 of Some i \<Rightarrow> position (seeds ?s4 ! i)
                  | None \<Rightarrow> mpos (mounds ?s4 ! activeMound ?s4)) (Vector3 7.5 5.5 8)) 0.02\<rparr>"
    unfolding animate_def Let_def ..
  have pl3: "placeOf ?s3 = placeOf s"
    by (simp add: updateGrowth_place updateRain_place) (simp add: placeOf_def)
  have ph3: "phaseOf ?s3 = tick ?dt (phaseOf s)"
    unfolding updateGrowth_phase
    using updateRain_phase [of rnd ?dt elapsed ?s1]
    by (simp add: phaseOf_def Let_def)
  have "phaseOf ?s4 = phaseOf (?s3\<lparr>seeds := seeds ?s4\<rparr>)"
    by (rule arg_cong [OF s4])
  then have ph4: "phaseOf ?s4 = phaseOf ?s3"
    by (simp only: seeds_views)
  have "placeOf ?s4 = placeOf (?s3\<lparr>seeds := seeds ?s4\<rparr>)"
    by (rule arg_cong [OF s4])
  also have "\<dots> = placeOf ?s3"
    unfolding seeds_views updateSeeds_length by (simp add: placeOf_def)
  finally have pl4: "placeOf ?s4 = placeOf ?s3" .
  show "phaseOf (animate delta elapsed rnd s) = tick ?dt (phaseOf s)"
    unfolding an camera_views ph4 by (rule ph3)
  show "placeOf (animate delta elapsed rnd s) = placeOf s"
    unfolding an camera_views pl4 by (rule pl3)
qed

lemma frames_in_flight:
  "i < length (seeds s) \<Longrightarrow> followedSeed s = Some i \<Longrightarrow> active (seeds s ! i) \<Longrightarrow>
   (descend 0.033 ^^ n) (altitude (seeds s ! i)) = (y, v, False) \<Longrightarrow>
   phaseOf (run (replicate n frame) s) = (tick 0.033 ^^ n) (phaseOf s) \<and>
   placeOf (run (replicate n frame) s) = placeOf s \<and>
   altitude (seeds (run (replicate n frame) s) ! i) = (y, v, False) \<and>
   active (seeds (run (replicate n frame) s) ! i)"
proof (induction n arbitrary: s)
  case 0
  then show ?case by simp
next
  case (Suc n)
  let ?sd = "seeds s ! i"
  let ?s1 = "step frame s"
  have fl: "(descend 0.033 ^^ n) (descend 0.033 (altitude ?sd)) = (y, v, False)"
    using Suc.prems(4) by (simp add: funpow_swap1)
  then obtain y1 v1 where d: "descend 0.033 (altitude ?sd) = (y1, v1, False)"
    using descend_in_flight by blast
  have c: "\<not> vy (position (integrate (min 0.033 0.033) 0 ?sd)) \<le> 0.45"
    using in_flight_no_landing(2) [OF d, of 0] by simp
  note an = animate_in_flight [OF Suc.prems(1,2) c, of noDraws]
  have ph: "phaseOf ?s1 = tick 0.033 (phaseOf s)" and pl: "placeOf ?s1 = placeOf s"
    using an by (simp_all add: frame_def)
  have sd1: "seeds ?s1 ! i = advance 0.033 0 ?sd"
    using Suc.prems(1) by (simp add: frame_def animate_seeds)
  have i1: "i < length (seeds ?s1)" and f1: "followedSeed ?s1 = Some i"
    using pl Suc.prems(1,2) by (simp_all add: placeOf_def)
  have a1: "active (seeds ?s1 ! i)"
    and al1: "altitude (seeds ?s1 ! i) = descend 0.033 (altitude ?sd)"
    unfolding sd1 using advance_altitude [OF Suc.prems(3)] by simp_all
  have "(descend 0.033 ^^ n) (altitude (seeds ?s1 ! i)) = (y, v, False)"
    unfolding al1 by (rule fl)
  from Suc.IH [OF i1 f1 a1 this] show ?case
    using ph pl by (simp add: funpow_swap1)
qed

lemma findSeed_hd: "sds \<noteq> [] \<Longrightarrow> findSeed (ObjSeed (mesh (hd sds))) sds = Some 0"
  by (cases sds) simp_all

lemma click_seed:
  assumes "seeds s \<noteq> []"
  shows "phaseOf (pointerdown (Some (ObjSeed (mesh (hd (seeds s))))) rnd s) = phaseOf s"
    and "placeOf (pointerdown (Some (ObjSeed (mesh (hd (seeds s))))) rnd s)
           = (Some 0, activeMound s, plantPos s, length (mounds s), length (seeds s),
              rainButtonDisabled s)"
    and "seeds (pointerdown (Some (ObjSeed (mesh (hd (seeds s))))) rnd s) = seeds s"
  using assms
  by (simp_all add: pointerdown_def findSeed_hd setStatus_def phaseOf_def placeOf_def)

lemma first_spawned:
  assumes "seeds s = []"
  shows "altitude (seeds (disperseLoop rnd (Suc n) i s) ! 0)
           = (vy (plantPos s) + 1.8, 1.4 + rnd (4 * i + 1) * 1.7, False)"
    and "active (seeds (disperseLoop rnd (Suc n) i s) ! 0)"
proof -
  let ?sd = "\<lparr>mesh = nextId s, position = v_add (plantPos s) (Vector3 0 1.8 0),
      velocity = v_add (Vector3 ((rnd (4 * i) - 0.5) * 1.1) (1.4 + rnd (4 * i + 1) * 1.7)
                         ((rnd (4 * i + 2) - 0.5) * 1.1))
                 (multiplyScalar windDirection (0.7 + rnd (4 * i + 3) * 0.6)),
      active = True, landed = False\<rparr>"
  have sp: "seeds (spawnSeed rnd i s) = [?sd]"
    using assms by (simp add: spawnSeed_def Let_def)
  obtain new where
    "seeds (disperseLoop rnd n (i + 1) (spawnSeed rnd i s)) = seeds (spawnSeed rnd i s) @ new"
    using disperseLoop_grows by blast
  then have "seeds (disperseLoop rnd (Suc n) i s) ! 0 = ?sd"
    by (simp add: sp)
  then show "altitude (seeds (disperseLoop rnd (Suc n) i s) ! 0)
           = (vy (plantPos s) + 1.8, 1.4 + rnd (4 * i + 1) * 1.7, False)"
    and "active (seeds (disperseLoop rnd (Suc n) i s) ! 0)"
    by (simp_all add: altitude_def v_add_def multiplyScalar_def windDirection_vy)
qed

lemma dispersedScene_first:
  "altitude (seeds dispersedScene ! 0) = (2.25, 1.4, False)"
  "active (seeds dispersedScene ! 0)"
proof -
  let ?s0 = "puffReadyScene\<lparr>puff := False, puffVisible := False, budVisible := False\<rparr>"
  have p: "puff puffReadyScene" and pp: "plantPos puffReadyScene = firstMoundPos"
    and e: "seeds puffReadyScene = []"
    using puffReadyScene_views by (simp_all add: phaseOf_def placeOf_def)
  have n: "(36::nat) = Suc 35" by simp
  have "seeds dispersedScene = seeds (disperseLoop noDraws (Suc 35) 0 ?s0)"
    using p unfolding n [symmetric]
    by (simp add: dispersedScene_def pointerdown_bud disperseSeeds_def setStatus_def)
  moreover have "seeds ?s0 = []" using e by simp
  note first_spawned [OF this, of noDraws 35 0]
  ultimately show "altitude (seeds dispersedScene ! 0) = (2.25, 1.4, False)"
    and "active (seeds dispersedScene ! 0)"
    using pp by (simp_all add: noDraws_def firstMoundPos_def)
qed

lemma dispersedScene_seeds: "seeds dispersedScene \<noteq> []"
  using dispersedScene_views(2) by (auto simp add: placeOf_def)

lemma followScene_views:
  "phaseOf followScene = (True, True, False, False, False, 1, 1)"
  "placeOf followScene = (Some 0, 0, firstMoundPos, 1, 36, True)"
  "seeds followScene = seeds dispersedScene"
  using click_seed [OF dispersedScene_seeds, of noDraws] dispersedScene_views
  by (simp_all add: followScene_def placeOf_def)

lemma followScene_reachable: "reachable followScene"
proof -
  have "hd (seeds dispersedScene) \<in> set (seeds dispersedScene)"
    using dispersedScene_seeds by simp
  then have "deliverable dispersedScene
      (PointerDown (Some (ObjSeed (mesh (hd (seeds dispersedScene))))) noDraws)"
    by (simp add: pickCandidates_def in_unit_noDraws)
  with dispersedScene_reachable show ?thesis
    unfolding followScene_def by (rule reachable.reach_step)
qed

lemma flight: "(descend 0.033 ^^ 97) (2.25, 1.4, False) = (1300449 / 2500000, - (6103 / 2500), False)"
  by (simp add: eval_nat_numeral Let_def)

lemma idle: "(tick 0.033 ^^ 97) (True, True, False, False, False, 1, 1)
               = (True, True, False, False, False, 1, 1)"
  by (simp add: eval_nat_numeral Let_def)

lemma flightScene_views:
  "phaseOf flightScene = (True, True, False, False, False, 1, 1)"
  "placeOf flightScene = (Some 0, 0, firstMoundPos, 1, 36, True)"
  "altitude (seeds flightScene ! 0) = (1300449 / 2500000, - (6103 / 2500), False)"
  "active (seeds flightScene ! 0)"
proof -
  have i: "0 < length (seeds followScene)" and f: "followedSeed followScene = Some 0"
    using followScene_views(2) by (simp_all add: placeOf_def)
  have a: "active (seeds followScene ! 0)"
    and d: "(descend 0.033 ^^ 97) (altitude (seeds followScene ! 0))
              = (1300449 / 2500000, - (6103 / 2500), False)"
    unfolding followScene_views(3) dispersedScene_first flight
    by (simp_all add: dispersedScene_first)
  from frames_in_flight [OF i f a d]
  show "phaseOf flightScene = (True, True, False, False, False, 1, 1)"
    and "placeOf flightScene = (Some 0, 0, firstMoundPos, 1, 36, True)"
    and "altitude (seeds flightScene ! 0) = (1300449 / 2500000, - (6103 / 2500), False)"
    and "active (seeds flightScene ! 0)"
    unfolding flightScene_def followScene_views idle by simp_all
qed

lemma flightScene_reachable: "reachable flightScene"
  unfolding flightScene_def using followScene_reachable by (rule reachable_frames)

lemma flightScene_about_to_land:
  "followedSeed flightScene = Some 0" "0 < length (seeds flightScene)"
  "active (seeds flightScene ! 0)" "\<not> landed (seeds flightScene ! 0)"
  "vy (position (integrate (min 0.033 0.033) 0 (seeds flightScene ! 0))) \<le> 0.45"
  using flightScene_views
  by (simp_all add: placeOf_def altitude_def integrate_vy)

lemma landedScene_reachable: "reachable landedScene"
proof -
  have "deliverable flightScene frame" by (simp add: frame_def in_unit_noDraws)
  with flightScene_reachable show ?thesis
    unfolding landedScene_def by (rule reachable.reach_step)
qed

theorem followed_seed_landing_resets_witness:
  "reachable flightScene \<and> followedSeed flightScene = Some 0 \<and>
   planted flightScene \<and> wetness flightScene = 1 \<and> growth flightScene = 1 \<and>
   length (mounds flightScene) = 1 \<and>
   reachable landedScene \<and> length (mounds landedScene) = 2 \<and> activeMound landedScene = 1 \<and>
   mpos (mounds landedScene ! 1) = position (seeds landedScene ! 0) \<and>
   plantPos landedScene = position (seeds landedScene ! 0) \<and>
   vy (position (seeds landedScene ! 0)) = 0.45 \<and>
   \<not> planted landedScene \<and> \<not> watered landedScene \<and> \<not> blooming landedScene \<and>
   \<not> puff landedScene \<and> wetness landedScene = 0 \<and> growth landedScene = 0 \<and>
   \<not> puffVisible landedScene \<and> followedSeed landedScene = None"
proof -
  note th = followed_seed_landing_resets [OF flightScene_about_to_land, of noDraws]
  have m: "length (mounds flightScene) = 1"
    using flightScene_views(2) by (simp add: placeOf_def)
  have l: "animate 0.033 0 noDraws flightScene = landedScene"
    by (simp add: landedScene_def frame_def)
  from th m l show ?thesis
    using flightScene_reachable landedScene_reachable flightScene_views(1)
      flightScene_about_to_land(1)
    by (auto simp add: Let_def phaseOf_def)
qed

theorem landed_seed_rests_witness:
  "0 < length (seeds flightScene) \<and> active (seeds flightScene ! 0) \<and>
   \<not> landed (seeds flightScene ! 0) \<and>
   landed (seeds landedScene ! 0) \<and> velocity (seeds landedScene ! 0) = Vector3 0 0 0 \<and>
   vy (position (seeds landedScene ! 0)) = 0.45 \<and>
   seeds (run [frame, PointerDown (Some ObjSun) noDraws, frame] landedScene) ! 0
     = seeds landedScene ! 0 \<and>
   reachable landedScene \<and> seeds landedScene ! 0 \<in> set (seeds landedScene)"
proof -
  have l: "animate 0.033 0 noDraws flightScene = landedScene"
    by (simp add: landedScene_def frame_def)
  have one: "0 < length (seeds landedScene) \<and> landed (seeds landedScene ! 0) \<and>
      velocity (seeds landedScene ! 0) = Vector3 0 0 0 \<and>
      vy (position (seeds landedScene ! 0)) = 0.45"
    using landed_seed_rests [where i = 0 and s = flightScene and delta = "0.033"
        and elapsed = 0 and rnd = noDraws and es = "[]"]
      flightScene_about_to_land
    unfolding l by simp
  then have two: "seeds (run [frame, PointerDown (Some ObjSun) noDraws, frame] landedScene) ! 0
     = seeds landedScene ! 0"
    using landed_seed_rests [where i = 0 and s = landedScene and delta = 0
        and elapsed = 0 and rnd = noDraws
        and es = "[frame, PointerDown (Some ObjSun) noDraws, frame]"]
    by blast
  have three: "seeds landedScene ! 0 \<in> set (seeds landedScene)"
    using one by simp
  show ?thesis
    using one two three flightScene_about_to_land landedScene_reachable by simp
qed

subsection \<open>Wetness over a frame\<close>

lemma seedStep_quiet:
  "\<not> (active (seeds s ! i) \<and> \<not> landed (seeds s ! i) \<and>
      vy (position (integrate dt elapsed (seeds s ! i))) \<le> 0.45) \<Longrightarrow>
   seedStep dt elapsed s i = s\<lparr>seeds := seeds (seedStep dt elapsed s i)\<rparr>"
  by (auto simp add: seedStep_def Let_def)

lemma updateSeeds_quiet:
  assumes q: "\<not> followedLands dt elapsed s"
  shows "updateSeeds dt elapsed s = s\<lparr>seeds := seeds (updateSeeds dt elapsed s)\<rparr>"
proof (cases "followedSeed s")
  case None
  then show ?thesis by (rule updateSeeds_unfollowed)
next
  case (Some i)
  let ?f = "seedStep dt elapsed"
  let ?n = "length (seeds s)"
  show ?thesis
  proof (cases "i < ?n")
    case False
    then have "followedSeed s \<notin> Some ` set [0..<?n]" using Some by auto
    then show ?thesis
      unfolding updateSeeds_def by (rule foldl_seedStep_unfollowed)
  next
    case True
    let ?t1 = "foldl ?f s [0..<i]"
    let ?t2 = "?f ?t1 i"
    have split: "[0..<?n] = [0..<i] @ i # [Suc i..<?n]"
      using True by (metis le0 upt_add_eq_append upt_conv_Cons le_add_diff_inverse less_imp_le_nat)
    have "followedSeed s \<notin> Some ` set [0..<i]" using Some by auto
    then have t1: "?t1 = s\<lparr>seeds := seeds ?t1\<rparr>"
      by (rule foldl_seedStep_unfollowed)
    have "seeds ?t1 = map (advance dt elapsed) (take i (seeds s)) @ drop i (seeds s)"
      using True by (simp add: foldl_seedStep_seeds)
    then have at: "seeds ?t1 ! i = seeds s ! i"
      using True by (simp add: nth_append)
    have "\<not> (active (seeds s ! i) \<and> \<not> landed (seeds s ! i) \<and>
        vy (position (integrate dt elapsed (seeds s ! i))) \<le> 0.45)"
      using q Some True by (auto simp add: followedLands_def)
    then have "\<not> (active (seeds ?t1 ! i) \<and> \<not> landed (seeds ?t1 ! i) \<and>
        vy (position (integrate dt elapsed (seeds ?t1 ! i))) \<le> 0.45)"
      unfolding at .
    then have "?t2 = ?t1\<lparr>seeds := seeds ?t2\<rparr>"
      by (rule seedStep_quiet)
    then have "?t2 = (s\<lparr>seeds := seeds ?t1\<rparr>)\<lparr>seeds := seeds ?t2\<rparr>"
      using t1 by simp
    then have t2: "?t2 = s\<lparr>seeds := seeds ?t2\<rparr>" by simp
    have "followedSeed ?t2 = followedSeed (s\<lparr>seeds := seeds ?t2\<rparr>)"
      by (rule arg_cong [OF t2])
    then have "followedSeed ?t2 \<notin> Some ` set [Suc i..<?n]"
      using Some by auto
    then have "foldl ?f ?t2 [Suc i..<?n] = ?t2\<lparr>seeds := seeds (foldl ?f ?t2 [Suc i..<?n])\<rparr>"
      by (rule foldl_seedStep_unfollowed)
    moreover have "updateSeeds dt elapsed s = foldl ?f ?t2 [Suc i..<?n]"
      unfolding updateSeeds_def by (subst split) simp
    ultimately have "updateSeeds dt elapsed s
        = ?t2\<lparr>seeds := seeds (updateSeeds dt elapsed s)\<rparr>"
      by simp
    also have "\<dots> = s\<lparr>seeds := seeds (updateSeeds dt elapsed s)\<rparr>"
      by (subst t2) simp
    finally show ?thesis .
  qed
qed

lemma followedLands_cong:
  "seeds t = seeds s \<Longrightarrow> followedSeed t = followedSeed s \<Longrightarrow>
   followedLands dt elapsed t = followedLands dt elapsed s"
  by (simp add: followedLands_def split: option.splits)

lemma updateRain_opacity:
  "rainOpacity (updateRain rnd dt elapsed s)
     = (if rainActive s then min 0.9 (min 1 (wetness s + dt * 0.25))
        else max 0 (rainOpacity s - dt * 0.8))"
  by (simp add: updateRain_def Let_def setStatus_def)

lemma updateGrowth_opacity: "rainOpacity (updateGrowth dt s) = rainOpacity s"
  by (simp add: updateGrowth_def Let_def setStatus_def)

lemma animate_quiet:
  assumes q: "\<not> followedLands (min delta 0.033) elapsed s"
  shows "phaseOf (animate delta elapsed rnd s) = tick (min delta 0.033) (phaseOf s)"
    and "rainOpacity (animate delta elapsed rnd s)
           = (if rainActive s then min 0.9 (min 1 (wetness s + min delta 0.033 * 0.25))
              else max 0 (rainOpacity s - min delta 0.033 * 0.8))"
proof -
  let ?dt = "min delta 0.033"
  let ?s1 = "s\<lparr>cloudLeftPos := Vector3 (vx (cloudLeftPos s) + sin (elapsed * 0.25) * 0.002)
                   (vy (cloudLeftPos s)) (vz (cloudLeftPos s)),
               cloudRightPos := Vector3 (vx (cloudRightPos s) - sin (elapsed * 0.22) * 0.002)
                   (vy (cloudRightPos s)) (vz (cloudRightPos s))\<rparr>"
  let ?s3 = "updateGrowth ?dt (updateRain rnd ?dt elapsed ?s1)"
  let ?s4 = "updateSeeds ?dt elapsed ?s3"
  have sd3: "seeds ?s3 = seeds s"
    by (simp add: updateGrowth_seeds_scene updateRain_seeds_scene)
  have f3: "followedSeed ?s3 = followedSeed s"
    by (simp add: updateGrowth_followed updateRain_followed)
  have "\<not> followedLands ?dt elapsed ?s3"
    using q followedLands_cong [OF sd3 f3] by simp
  then have s4: "?s4 = ?s3\<lparr>seeds := seeds ?s4\<rparr>"
    by (rule updateSeeds_quiet)
  have an: "animate delta elapsed rnd s =
      ?s4\<lparr>cameraPos := v_lerp (cameraPos ?s4)
         (v_add (case followedSeed ?s4 of Some i \<Rightarrow> position (seeds ?s4 ! i)
                  | None \<Rightarrow> mpos (mounds ?s4 ! activeMound ?s4)) (Vector3 7.5 5.5 8)) 0.02\<rparr>"
    unfolding animate_def Let_def ..
  have ph3: "phaseOf ?s3 = tick ?dt (phaseOf s)"
    unfolding updateGrowth_phase
    using updateRain_phase [of rnd ?dt elapsed ?s1]
    by (simp add: phaseOf_def Let_def)
  have "phaseOf ?s4 = phaseOf (?s3\<lparr>seeds := seeds ?s4\<rparr>)"
    by (rule arg_cong [OF s4])
  then have ph4: "phaseOf ?s4 = phaseOf ?s3"
    by (simp only: seeds_views)
  show "phaseOf (animate delta elapsed rnd s) = tick ?dt (phaseOf s)"
    unfolding an camera_views ph4 by (rule ph3)
  have "rainOpacity ?s4 = rainOpacity (?s3\<lparr>seeds := seeds ?s4\<rparr>)"
    by (rule arg_cong [OF s4])
  then have "rainOpacity ?s4 = rainOpacity ?s3" by simp
  moreover have "rainOpacity (animate delta elapsed rnd s) = rainOpacity ?s4"
    unfolding an by simp
  ultimately show "rainOpacity (animate delta elapsed rnd s)
           = (if rainActive s then min 0.9 (min 1 (wetness s + min delta 0.033 * 0.25))
              else max 0 (rainOpacity s - min delta 0.033 * 0.8))"
    by (simp add: updateGrowth_opacity updateRain_opacity)
qed

lemma animate_landing:
  assumes "followedLands (min delta 0.033) elapsed s"
  shows "phaseOf (animate delta elapsed rnd s) = (False, False, False, False, False, 0, 0)"
proof -
  let ?dt = "min delta 0.033"
  let ?s1 = "s\<lparr>cloudLeftPos := Vector3 (vx (cloudLeftPos s) + sin (elapsed * 0.25) * 0.002)
                   (vy (cloudLeftPos s)) (vz (cloudLeftPos s)),
               cloudRightPos := Vector3 (vx (cloudRightPos s) - sin (elapsed * 0.22) * 0.002)
                   (vy (cloudRightPos s)) (vz (cloudRightPos s))\<rparr>"
  let ?s3 = "updateGrowth ?dt (updateRain rnd ?dt elapsed ?s1)"
  let ?s4 = "updateSeeds ?dt elapsed ?s3"
  from assms obtain i where f: "followedSeed s = Some i" and h: "i < length (seeds s)"
    "active (seeds s ! i)" "\<not> landed (seeds s ! i)"
    "vy (position (integrate ?dt elapsed (seeds s ! i))) \<le> 0.45"
    by (auto simp add: followedLands_def split: option.splits)
  have sd3: "seeds ?s3 = seeds s"
    by (simp add: updateGrowth_seeds_scene updateRain_seeds_scene)
  have f3: "followedSeed ?s3 = Some i"
    using f by (simp add: updateGrowth_followed updateRain_followed)
  have h3: "i < length (seeds ?s3)" "active (seeds ?s3 ! i)" "\<not> landed (seeds ?s3 ! i)"
    "vy (position (integrate ?dt elapsed (seeds ?s3 ! i))) \<le> 0.45"
    using h unfolding sd3 by simp_all
  have s4: "?s4 = (newCycleAt (position (integrate ?dt elapsed (seeds ?s3 ! i))) ?s3)
                \<lparr>seeds := map (advance ?dt elapsed) (seeds ?s3)\<rparr>"
    using f3 h3 by (rule updateSeeds_lands)
  have an: "animate delta elapsed rnd s =
      ?s4\<lparr>cameraPos := v_lerp (cameraPos ?s4)
         (v_add (case followedSeed ?s4 of Some i \<Rightarrow> position (seeds ?s4 ! i)
                  | None \<Rightarrow> mpos (mounds ?s4 ! activeMound ?s4)) (Vector3 7.5 5.5 8)) 0.02\<rparr>"
    unfolding animate_def Let_def ..
  have "phaseOf ?s4 = (False, False, False, False, False, 0, 0)"
    by (subst s4) (simp only: seeds_views newCycleAt_views)
  then show ?thesis
    unfolding an camera_views .
qed

text \<open>
  Claim C2, as amended.  A frame sets the wetness to \<open>min 1 (wetness + 0.25 * dt)\<close> while
  rain is active, \<open>dt\<close> being the frame's time step \<open>min delta 0.033\<close>, and leaves it as
  it is while rain is inactive; the one exception is the frame in which the followed
  seed lands, which resets the cycle: it stops the rain, clears the planted flag and
  sets the wetness to 0.  So while rain is active the wetness does not decrease over a
  frame step and never exceeds 1, a frame that leaves the rain active being never one
  with a landing.  While rain is inactive the wetness does not decay: what decays, at
  the faster rate 0.8 and clamped at 0, is the opacity of the rain material.  In every
  reachable state the wetness lies in \<open>[0, 1]\<close>.
\<close>

theorem wetness_per_frame:
  "wetness (animate delta elapsed rnd s)
     = (if followedLands (min delta 0.033) elapsed s then 0
        else if rainActive s then min 1 (wetness s + min delta 0.033 * 0.25)
        else wetness s) \<and>
   (rainActive s \<and> \<not> followedLands (min delta 0.033) elapsed s \<and> 0 \<le> delta \<and> wetness s \<le> 1
      \<longrightarrow> wetness s \<le> wetness (animate delta elapsed rnd s) \<and>
          wetness (animate delta elapsed rnd s) \<le> 1) \<and>
   (rainActive (animate delta elapsed rnd s)
      \<longrightarrow> rainActive s \<and> \<not> followedLands (min delta 0.033) elapsed s) \<and>
   (\<not> rainActive s \<and> \<not> followedLands (min delta 0.033) elapsed s
      \<longrightarrow> wetness (animate delta elapsed rnd s) = wetness s \<and>
          rainOpacity (animate delta elapsed rnd s)
            = max 0 (rainOpacity s - min delta 0.033 * 0.8)) \<and>
   (followedLands (min delta 0.033) elapsed s
      \<longrightarrow> wetness (animate delta elapsed rnd s) = 0 \<and>
          \<not> rainActive (animate delta elapsed rnd s) \<and>
          \<not> planted (animate delta elapsed rnd s)) \<and>
   (reachable s \<longrightarrow> 0 \<le> wetness s \<and> wetness s \<le> 1)"
proof -
  let ?dt = "min delta 0.033"
  let ?s' = "animate delta elapsed rnd s"
  let ?w = "if rainActive s then min 1 (wetness s + ?dt * 0.25) else wetness s"
  have quiet: "wetness ?s' = ?w" "rainActive ?s' \<longrightarrow> rainActive s"
    "\<not> rainActive s \<longrightarrow> rainOpacity ?s' = max 0 (rainOpacity s - ?dt * 0.8)"
    if "\<not> followedLands ?dt elapsed s"
    using animate_quiet [OF that, of rnd] by (simp_all add: phaseOf_def Let_def)
  have lands: "wetness ?s' = 0" "\<not> rainActive ?s'" "\<not> planted ?s'"
    if "followedLands ?dt elapsed s"
    using animate_landing [OF that, of rnd] by (simp_all add: phaseOf_def)
  have one: "wetness ?s' = (if followedLands ?dt elapsed s then 0 else ?w)"
    using quiet(1) lands(1) by simp
  have two: "wetness s \<le> wetness ?s' \<and> wetness ?s' \<le> 1"
    if "rainActive s \<and> \<not> followedLands ?dt elapsed s \<and> 0 \<le> delta \<and> wetness s \<le> 1"
  proof -
    have "0 \<le> ?dt * 0.25" using that by simp
    then show ?thesis using that quiet(1) by simp
  qed
  have three: "rainActive s \<and> \<not> followedLands ?dt elapsed s" if "rainActive ?s'"
    using that quiet(2) lands(2) by blast
  have four: "wetness ?s' = wetness s \<and> rainOpacity ?s' = max 0 (rainOpacity s - ?dt * 0.8)"
    if "\<not> rainActive s \<and> \<not> followedLands ?dt elapsed s"
    using that quiet(1,3) by simp
  have five: "0 \<le> wetness s \<and> wetness s \<le> 1" if "reachable s"
    using wetnessInRange_reachable [OF that] by (simp add: wetnessInRange_def)
  show ?thesis
    using one two three four lands five by (intro conjI impI) blast+
qed

text \<open>
  The claim as first stated fails: once the mound is soaked and the rain has stopped, a
  frame leaves the wetness at 1.
\<close>

theorem wetness_does_not_decay:
  "reachable soakedScene \<and> \<not> rainActive soakedScene \<and> wetness soakedScene = 1 \<and>
   wetness (step frame soakedScene) = 1 \<and>
   wetness (updateRain noDraws 0.033 0 soakedScene) = 1"
proof -
  have "followedSeed soakedScene = None"
    using soakedScene_views(2) by (simp add: placeOf_def)
  from animate_unfollowed(1) [OF this, of "0.033" 0 noDraws]
  have "phaseOf (step frame soakedScene) = tick 0.033 (True, True, False, False, False, 1, 0)"
    unfolding soakedScene_views by (simp add: frame_def)
  then have "wetness (step frame soakedScene) = 1"
    by (simp add: phaseOf_def Let_def)
  moreover have "wetness (updateRain noDraws 0.033 0 soakedScene) = 1"
    using updateRain_phase [of noDraws "0.033" 0 soakedScene] soakedScene_views(1)
    by (simp add: phaseOf_def Let_def)
  ultimately show ?thesis
    using soakedScene_reachable soakedScene_views(1) by (simp add: phaseOf_def)
qed

subsection \<open>A landing while it rains\<close>

lemma animate_landing_place:
  assumes "followedLands (min delta 0.033) elapsed s"
  shows "\<exists>p. placeOf (animate delta elapsed rnd s)
           = (None, length (mounds s), p, length (mounds s) + 1, length (seeds s), False)"
proof -
  let ?dt = "min delta 0.033"
  let ?s1 = "s\<lparr>cloudLeftPos := Vector3 (vx (cloudLeftPos s) + sin (elapsed * 0.25) * 0.002)
                   (vy (cloudLeftPos s)) (vz (cloudLeftPos s)),
               cloudRightPos := Vector3 (vx (cloudRightPos s) - sin (elapsed * 0.22) * 0.002)
                   (vy (cloudRightPos s)) (vz (cloudRightPos s))\<rparr>"
  let ?s3 = "updateGrowth ?dt (updateRain rnd ?dt elapsed ?s1)"
  let ?s4 = "updateSeeds ?dt elapsed ?s3"
  from assms obtain i where f: "followedSeed s = Some i" and h: "i < length (seeds s)"
    "active (seeds s ! i)" "\<not> landed (seeds s ! i)"
    "vy (position (integrate ?dt elapsed (seeds s ! i))) \<le> 0.45"
    by (auto simp add: followedLands_def split: option.splits)
  have sd3: "seeds ?s3 = seeds s"
    by (simp add: updateGrowth_seeds_scene updateRain_seeds_scene)
  have f3: "followedSeed ?s3 = Some i"
    using f by (simp add: updateGrowth_followed updateRain_followed)
  have len3: "length (mounds ?s3) = length (mounds s)"
    by (simp add: updateGrowth_mounds updateRain_mounds)
  have h3: "i < length (seeds ?s3)" "active (seeds ?s3 ! i)" "\<not> landed (seeds ?s3 ! i)"
    "vy (position (integrate ?dt elapsed (seeds ?s3 ! i))) \<le> 0.45"
    using h unfolding sd3 by simp_all
  have s4: "?s4 = (newCycleAt (position (integrate ?dt elapsed (seeds ?s3 ! i))) ?s3)
                \<lparr>seeds := map (advance ?dt elapsed) (seeds ?s3)\<rparr>"
    using f3 h3 by (rule updateSeeds_lands)
  have an: "animate delta elapsed rnd s =
      ?s4\<lparr>cameraPos := v_lerp (cameraPos ?s4)
         (v_add (case followedSeed ?s4 of Some i \<Rightarrow> position (seeds ?s4 ! i)
                  | None \<Rightarrow> mpos (mounds ?s4 ! activeMound ?s4)) (Vector3 7.5 5.5 8)) 0.02\<rparr>"
    unfolding animate_def Let_def ..
  let ?t = "newCycleAt (position (integrate ?dt elapsed (seeds ?s3 ! i))) ?s3"
  have "placeOf ?s4 = placeOf (?t\<lparr>seeds := map (advance ?dt elapsed) (seeds ?s3)\<rparr>)"
    by (rule arg_cong [OF s4])
  also have "\<dots> = (followedSeed ?t, activeMound ?t, plantPos ?t, length (mounds ?t),
      length (seeds s), rainButtonDisabled ?t)"
    unfolding seeds_views sd3 by simp
  finally have "placeOf ?s4
      = (None, length (mounds s), plantPos ?t, length (mounds s) + 1, length (seeds s), False)"
    using newCycleAt_views(2) [of "position (integrate ?dt elapsed (seeds ?s3 ! i))" ?s3] len3
    by (simp add: placeOf_def)
  then show ?thesis
    unfolding an camera_views by blast
qed

lemma second_spawned:
  assumes "seeds s = []"
  shows "altitude (seeds (disperseLoop rnd (Suc (Suc n)) i s) ! 1)
           = (vy (plantPos s) + 1.8, 1.4 + rnd (4 * i + 5) * 1.7, False)"
    and "active (seeds (disperseLoop rnd (Suc (Suc n)) i s) ! 1)"
    and "mesh (seeds (disperseLoop rnd (Suc (Suc n)) i s) ! 0)
           \<noteq> mesh (seeds (disperseLoop rnd (Suc (Suc n)) i s) ! 1)"
proof -
  let ?sd0 = "\<lparr>mesh = nextId s, position = v_add (plantPos s) (Vector3 0 1.8 0),
      velocity = v_add (Vector3 ((rnd (4 * i) - 0.5) * 1.1) (1.4 + rnd (4 * i + 1) * 1.7)
                         ((rnd (4 * i + 2) - 0.5) * 1.1))
                 (multiplyScalar windDirection (0.7 + rnd (4 * i + 3) * 0.6)),
      active = True, landed = False\<rparr>"
  let ?sd1 = "\<lparr>mesh = nextId s + 1, position = v_add (plantPos s) (Vector3 0 1.8 0),
      velocity = v_add (Vector3 ((rnd (4 * (i + 1)) - 0.5) * 1.1)
                         (1.4 + rnd (4 * (i + 1) + 1) * 1.7)
                         ((rnd (4 * (i + 1) + 2) - 0.5) * 1.1))
                 (multiplyScalar windDirection (0.7 + rnd (4 * (i + 1) + 3) * 0.6)),
      active = True, landed = False\<rparr>"
  let ?s2 = "spawnSeed rnd (i + 1) (spawnSeed rnd i s)"
  have sp: "seeds ?s2 = [?sd0, ?sd1]"
    using assms by (simp add: spawnSeed_def Let_def)
  obtain new where g: "seeds (disperseLoop rnd n (i + 1 + 1) ?s2) = seeds ?s2 @ new"
    using disperseLoop_grows by blast
  have eq: "disperseLoop rnd (Suc (Suc n)) i s = disperseLoop rnd n (i + 1 + 1) ?s2"
    by (simp only: disperseLoop.simps)
  have "seeds (disperseLoop rnd (Suc (Suc n)) i s) = [?sd0, ?sd1] @ new"
    unfolding eq by (rule g [unfolded sp])
  then have "seeds (disperseLoop rnd (Suc (Suc n)) i s) ! 1 = ?sd1"
    and "seeds (disperseLoop rnd (Suc (Suc n)) i s) ! 0 = ?sd0"
    by simp_all
  then show "altitude (seeds (disperseLoop rnd (Suc (Suc n)) i s) ! 1)
           = (vy (plantPos s) + 1.8, 1.4 + rnd (4 * i + 5) * 1.7, False)"
    and "active (seeds (disperseLoop rnd (Suc (Suc n)) i s) ! 1)"
    and "mesh (seeds (disperseLoop rnd (Suc (Suc n)) i s) ! 0)
           \<noteq> mesh (seeds (disperseLoop rnd (Suc (Suc n)) i s) ! 1)"
    by (simp_all add: altitude_def v_add_def multiplyScalar_def windDirection_vy algebra_simps)
qed

lemma frames_seed:
  "j < length (seeds s) \<Longrightarrow> active (seeds s ! j) \<Longrightarrow>
   altitude (seeds (run (replicate n frame) s) ! j)
     = (descend 0.033 ^^ n) (altitude (seeds s ! j)) \<and>
   active (seeds (run (replicate n frame) s) ! j) \<and>
   mesh (seeds (run (replicate n frame) s) ! j) = mesh (seeds s ! j) \<and>
   length (seeds (run (replicate n frame) s)) = length (seeds s)"
proof (induction n arbitrary: s)
  case 0
  then show ?case by simp
next
  case (Suc n)
  let ?s1 = "step frame s"
  have sd1: "seeds ?s1 ! j = advance 0.033 0 (seeds s ! j)"
    and l1: "length (seeds ?s1) = length (seeds s)"
    using Suc.prems(1) by (simp_all add: frame_def animate_seeds)
  have j1: "j < length (seeds ?s1)" using Suc.prems(1) l1 by simp
  have a1: "active (seeds ?s1 ! j)"
    and al1: "altitude (seeds ?s1 ! j) = descend 0.033 (altitude (seeds s ! j))"
    and m1: "mesh (seeds ?s1 ! j) = mesh (seeds s ! j)"
    unfolding sd1 using advance_altitude [OF Suc.prems(2)] by (simp_all add: advance_mesh)
  from Suc.IH [OF j1 a1] show ?case
    using al1 m1 l1 by (simp add: funpow_swap1)
qed

lemma click_keeps_seeds:
  "seeds (pointerdown (Some (ObjMound k)) rnd s) = seeds s"
  "seeds (pointerdown (Some (ObjSeed m)) rnd s) = seeds s"
  "seeds (startRain s) = seeds s"
  by (simp_all add: pointerdown_def startRain_def setStatus_def findSeed_not_seed
      split: option.splits)

lemma findSeed_second:
  "1 < length sds \<Longrightarrow> mesh (sds ! 0) \<noteq> mesh (sds ! 1) \<Longrightarrow>
   findSeed (ObjSeed (mesh (sds ! 1))) sds = Some 1"
proof -
  assume l: "1 < length sds" and m: "mesh (sds ! 0) \<noteq> mesh (sds ! 1)"
  from l obtain a b rest where "sds = a # b # rest"
    by (cases sds; cases "tl sds") auto
  with m show ?thesis by simp
qed

lemma click_second_seed:
  assumes "1 < length (seeds s)" and "mesh (seeds s ! 0) \<noteq> mesh (seeds s ! 1)"
  shows "phaseOf (pointerdown (Some (ObjSeed (mesh (seeds s ! 1)))) rnd s) = phaseOf s"
    and "placeOf (pointerdown (Some (ObjSeed (mesh (seeds s ! 1)))) rnd s)
           = (Some 1, activeMound s, plantPos s, length (mounds s), length (seeds s),
              rainButtonDisabled s)"
  using findSeed_second [OF assms]
  by (simp_all add: pointerdown_def setStatus_def phaseOf_def placeOf_def)

lemma in_unit_gustDraws: "in_unit gustDraws"
  by (simp add: in_unit_def gustDraws_def)

lemma gustScene_views:
  "phaseOf gustScene = (True, True, False, False, False, 1, 1)"
  "placeOf gustScene = (None, 0, firstMoundPos, 1, 36, True)"
  using click_bud [OF puffReadyScene_views(1), of gustDraws] puffReadyScene_views(2)
  by (simp_all add: gustScene_def placeOf_def)

lemma gustScene_reachable: "reachable gustScene"
proof -
  have "deliverable puffReadyScene (PointerDown (Some ObjBud) gustDraws)"
    by (simp add: pickCandidates_def in_unit_gustDraws)
  with puffReadyScene_reachable show ?thesis
    unfolding gustScene_def by (rule reachable.reach_step)
qed

lemma gustScene_seeds:
  "altitude (seeds gustScene ! 0) = (2.25, 1.4, False)"
  "active (seeds gustScene ! 0)"
  "altitude (seeds gustScene ! 1) = (2.25, 1.57, False)"
  "active (seeds gustScene ! 1)"
  "mesh (seeds gustScene ! 0) \<noteq> mesh (seeds gustScene ! 1)"
proof -
  let ?s0 = "puffReadyScene\<lparr>puff := False, puffVisible := False, budVisible := False\<rparr>"
  have p: "puff puffReadyScene" and pp: "plantPos puffReadyScene = firstMoundPos"
    and e: "seeds puffReadyScene = []"
    using puffReadyScene_views by (simp_all add: phaseOf_def placeOf_def)
  have n: "(36::nat) = Suc (Suc 34)" by simp
  have sd: "seeds gustScene = seeds (disperseLoop gustDraws (Suc (Suc 34)) 0 ?s0)"
    using p unfolding n [symmetric]
    by (simp add: gustScene_def pointerdown_bud disperseSeeds_def setStatus_def)
  have e0: "seeds ?s0 = []" using e by simp
  note one = first_spawned [OF e0, of gustDraws "Suc 34" 0]
  note two = second_spawned [OF e0, of gustDraws 34 0]
  show "altitude (seeds gustScene ! 0) = (2.25, 1.4, False)"
    and "active (seeds gustScene ! 0)"
    and "altitude (seeds gustScene ! 1) = (2.25, 1.57, False)"
    and "active (seeds gustScene ! 1)"
    and "mesh (seeds gustScene ! 0) \<noteq> mesh (seeds gustScene ! 1)"
    unfolding sd using one two pp by (simp_all add: gustDraws_def firstMoundPos_def)
qed

lemma chaseScene_views:
  "phaseOf chaseScene = (True, True, False, False, False, 1, 1)"
  "placeOf chaseScene = (Some 0, 0, firstMoundPos, 1, 36, True)"
  "seeds chaseScene = seeds gustScene"
proof -
  have "seeds gustScene \<noteq> []"
    using gustScene_views(2) by (auto simp add: placeOf_def)
  from click_seed [OF this, of noDraws]
  show "phaseOf chaseScene = (True, True, False, False, False, 1, 1)"
    and "placeOf chaseScene = (Some 0, 0, firstMoundPos, 1, 36, True)"
    and "seeds chaseScene = seeds gustScene"
    using gustScene_views by (simp_all add: chaseScene_def placeOf_def)
qed

lemma chaseScene_reachable: "reachable chaseScene"
proof -
  have "seeds gustScene \<noteq> []"
    using gustScene_views(2) by (auto simp add: placeOf_def)
  then have "hd (seeds gustScene) \<in> set (seeds gustScene)" by simp
  then have "deliverable gustScene
      (PointerDown (Some (ObjSeed (mesh (hd (seeds gustScene))))) noDraws)"
    by (simp add: pickCandidates_def in_unit_noDraws)
  with gustScene_reachable show ?thesis
    unfolding chaseScene_def by (rule reachable.reach_step)
qed

lemma late_flight:
  "(descend 0.033 ^^ 98) (2.25, 1.57, False) = (2470233 / 2500000, - (5777 / 2500), False)"
  "(descend 0.033 ^^ 6) (2470233 / 2500000, - (5777 / 2500), False)
     = (62889 / 125000, - (6371 / 2500), False)"
  "(tick 0.033 ^^ 6) (True, False, False, False, True, 0, 0)
     = (True, False, False, False, True, 0.0495, 0)"
  by (simp_all add: eval_nat_numeral Let_def)

lemma touchdownScene_frames: "touchdownScene = run (replicate 98 frame) chaseScene"
proof -
  have "replicate 98 frame = replicate (Suc 97) frame" by simp
  also have "\<dots> = replicate 97 frame @ [frame]"
    by (simp only: replicate_Suc replicate_append_same)
  finally have "replicate 98 frame = replicate 97 frame @ [frame]" .
  then show ?thesis
    by (simp add: touchdownScene_def run_append)
qed

lemma touchdownScene_views:
  "phaseOf touchdownScene = (False, False, False, False, False, 0, 0)"
  "followedSeed touchdownScene = None" "activeMound touchdownScene = 1"
  "length (mounds touchdownScene) = 2" "length (seeds touchdownScene) = 36"
  "\<not> rainButtonDisabled touchdownScene"
  "altitude (seeds touchdownScene ! 1) = (2470233 / 2500000, - (5777 / 2500), False)"
  "active (seeds touchdownScene ! 1)"
  "mesh (seeds touchdownScene ! 0) \<noteq> mesh (seeds touchdownScene ! 1)"
proof -
  let ?g = "run (replicate 97 frame) chaseScene"
  have i: "0 < length (seeds chaseScene)" and f: "followedSeed chaseScene = Some 0"
    and i1: "1 < length (seeds chaseScene)"
    using chaseScene_views(2) by (simp_all add: placeOf_def)
  have a: "active (seeds chaseScene ! 0)"
    and d: "(descend 0.033 ^^ 97) (altitude (seeds chaseScene ! 0))
              = (1300449 / 2500000, - (6103 / 2500), False)"
    unfolding chaseScene_views(3) gustScene_seeds flight
    by (simp_all add: gustScene_seeds)
  from frames_in_flight [OF i f a d]
  have g: "placeOf ?g = (Some 0, 0, firstMoundPos, 1, 36, True)"
    "altitude (seeds ?g ! 0) = (1300449 / 2500000, - (6103 / 2500), False)"
    "active (seeds ?g ! 0)"
    unfolding chaseScene_views by simp_all
  have "followedLands (min 0.033 0.033) 0 ?g"
    using g by (simp add: followedLands_def placeOf_def altitude_def integrate_vy)
  note ph = animate_landing [OF this, of noDraws]
    and pl = animate_landing_place [OF \<open>followedLands (min 0.033 0.033) 0 ?g\<close>, of noDraws]
  have td: "touchdownScene = animate 0.033 0 noDraws ?g"
    by (simp add: touchdownScene_def frame_def)
  show "phaseOf touchdownScene = (False, False, False, False, False, 0, 0)"
    unfolding td by (rule ph)
  from pl obtain p where "placeOf touchdownScene
      = (None, length (mounds ?g), p, length (mounds ?g) + 1, length (seeds ?g), False)"
    unfolding td by blast
  then show "followedSeed touchdownScene = None" "activeMound touchdownScene = 1"
    "length (mounds touchdownScene) = 2" "length (seeds touchdownScene) = 36"
    "\<not> rainButtonDisabled touchdownScene"
    using g(1) by (simp_all add: placeOf_def)
  have a1: "active (seeds chaseScene ! 1)"
    unfolding chaseScene_views(3) by (rule gustScene_seeds)
  from frames_seed [OF i1 a1, of 98] frames_seed [OF i a, of 98]
  show "altitude (seeds touchdownScene ! 1) = (2470233 / 2500000, - (5777 / 2500), False)"
    and "active (seeds touchdownScene ! 1)"
    and "mesh (seeds touchdownScene ! 0) \<noteq> mesh (seeds touchdownScene ! 1)"
    unfolding touchdownScene_frames chaseScene_views(3) gustScene_seeds late_flight
    using gustScene_seeds(5) by simp_all
qed

lemma touchdownScene_reachable: "reachable touchdownScene"
  unfolding touchdownScene_frames using chaseScene_reachable by (rule reachable_frames)

lemma rainAgainScene_views:
  "phaseOf rainAgainScene = (True, False, False, False, True, 0, 0)"
  "followedSeed rainAgainScene = None" "activeMound rainAgainScene = 1"
  "length (mounds rainAgainScene) = 2" "length (seeds rainAgainScene) = 36"
  "seeds rainAgainScene = seeds touchdownScene"
  "reachable rainAgainScene"
proof -
  note td = touchdownScene_views
  have ph1: "phaseOf replantedScene = (True, False, False, False, False, 0, 0)"
    and pl1: "placeOf replantedScene = placeOf touchdownScene"
    using click_mound [OF td(1) td(3), of noDraws] by (simp_all add: replantedScene_def)
  have r1: "reachable replantedScene"
  proof -
    have "deliverable touchdownScene (PointerDown (Some (ObjMound 1)) noDraws)"
      using td(3) by (simp add: pickCandidates_def in_unit_noDraws)
    with touchdownScene_reachable show ?thesis
      unfolding replantedScene_def by (rule reachable.reach_step)
  qed
  have "deliverable replantedScene RainButtonClick"
    using pl1 td(6) by (simp add: placeOf_def)
  with r1 show "reachable rainAgainScene"
    unfolding rainAgainScene_def by (rule reachable.reach_step)
  from click_rain [OF ph1]
  show "phaseOf rainAgainScene = (True, False, False, False, True, 0, 0)"
    and "followedSeed rainAgainScene = None" and "activeMound rainAgainScene = 1"
    and "length (mounds rainAgainScene) = 2" and "length (seeds rainAgainScene) = 36"
    using pl1 td(2-5) by (simp_all add: rainAgainScene_def placeOf_def)
  show "seeds rainAgainScene = seeds touchdownScene"
    by (simp add: rainAgainScene_def replantedScene_def click_keeps_seeds)
qed

lemma lateFlightScene_views:
  "phaseOf lateFlightScene = (True, False, False, False, True, 0.0495, 0)"
  "followedLands 0.033 0 lateFlightScene"
  "reachable lateFlightScene"
proof -
  note ra = rainAgainScene_views
  note td = touchdownScene_views
  have l: "1 < length (seeds rainAgainScene)" using ra(5) by simp
  have m: "mesh (seeds rainAgainScene ! 0) \<noteq> mesh (seeds rainAgainScene ! 1)"
    unfolding ra(6) by (rule td(9))
  have sc: "seeds secondChaseScene = seeds touchdownScene"
    by (simp add: secondChaseScene_def click_keeps_seeds ra(6))
  from click_second_seed [OF l m, of noDraws]
  have ph: "phaseOf secondChaseScene = (True, False, False, False, True, 0, 0)"
    and pl: "followedSeed secondChaseScene = Some 1" "length (seeds secondChaseScene) = 36"
    using ra(1-5) by (simp_all add: secondChaseScene_def placeOf_def)
  have "seeds rainAgainScene ! 1 \<in> set (seeds rainAgainScene)" using l by simp
  then have "deliverable rainAgainScene
      (PointerDown (Some (ObjSeed (mesh (seeds rainAgainScene ! 1)))) noDraws)"
    by (simp add: pickCandidates_def in_unit_noDraws)
  with ra(7) have "reachable secondChaseScene"
    unfolding secondChaseScene_def by (rule reachable.reach_step)
  then show "reachable lateFlightScene"
    unfolding lateFlightScene_def by (rule reachable_frames)
  have i: "1 < length (seeds secondChaseScene)" using pl(2) by simp
  have a: "active (seeds secondChaseScene ! 1)"
    and d: "(descend 0.033 ^^ 6) (altitude (seeds secondChaseScene ! 1))
              = (62889 / 125000, - (6371 / 2500), False)"
    unfolding sc td(7) late_flight using td(8) by simp_all
  from frames_in_flight [OF i pl(1) a d]
  have v: "phaseOf lateFlightScene = (True, False, False, False, True, 0.0495, 0)"
    "followedSeed lateFlightScene = Some 1" "length (seeds lateFlightScene) = 36"
    "altitude (seeds lateFlightScene ! 1) = (62889 / 125000, - (6371 / 2500), False)"
    "active (seeds lateFlightScene ! 1)"
    unfolding lateFlightScene_def ph late_flight using pl
    by (simp_all add: placeOf_def)
  show "phaseOf lateFlightScene = (True, False, False, False, True, 0.0495, 0)"
    by (rule v(1))
  show "followedLands 0.033 0 lateFlightScene"
    using v(2-5) by (simp add: followedLands_def altitude_def integrate_vy)
qed

text \<open>
  The exception for the landing frame is needed.  In the run above the rain is active,
  the wetness has come to 0.0495, and the next frame, in which the followed seed lands,
  ends with the rain stopped and the wetness at 0.
\<close>

theorem landing_dries_in_rain:
  "reachable lateFlightScene \<and> rainActive lateFlightScene \<and>
   wetness lateFlightScene = 0.0495 \<and> followedLands 0.033 0 lateFlightScene \<and>
   wetness (step frame lateFlightScene) = 0 \<and> \<not> rainActive (step frame lateFlightScene)"
proof -
  have "followedLands (min 0.033 0.033) 0 lateFlightScene"
    using lateFlightScene_views(2) by simp
  from animate_landing [OF this, of noDraws]
  have "phaseOf (step frame lateFlightScene) = (False, False, False, False, False, 0, 0)"
    by (simp add: frame_def)
  then show ?thesis
    using lateFlightScene_views by (simp add: phaseOf_def)
qed

theorem wetness_per_frame_witness:
  "rainActive rainingScene \<and> \<not> followedLands 0.033 0 rainingScene \<and>
   wetness rainingScene = 0 \<and>
   wetness (animate 0.033 0 noDraws rainingScene) = 0.00825 \<and>
   rainActive (animate 0.033 0 noDraws rainingScene) \<and>
   \<not> rainActive soakedScene \<and> \<not> followedLands 0.033 0 soakedScene \<and>
   wetness soakedScene = 1 \<and> wetness (animate 0.033 0 noDraws soakedScene) = 1 \<and>
   rainOpacity (animate 0.033 0 noDraws soakedScene)
     = max 0 (rainOpacity soakedScene - 0.033 * 0.8) \<and>
   rainActive lateFlightScene \<and> followedLands 0.033 0 lateFlightScene \<and>
   wetness lateFlightScene = 0.0495 \<and>
   wetness (animate 0.033 0 noDraws lateFlightScene) = 0 \<and>
   \<not> rainActive (animate 0.033 0 noDraws lateFlightScene) \<and>
   reachable soakedScene \<and> 0 \<le> wetness soakedScene \<and> wetness soakedScene \<le> 1"
proof -
  have r: "rainActive rainingScene" "wetness rainingScene = 0"
    "\<not> followedLands 0.033 0 rainingScene"
    using rainingScene_views by (simp_all add: phaseOf_def placeOf_def followedLands_def)
  have "followedSeed rainingScene = None"
    using rainingScene_views(2) by (simp add: placeOf_def)
  from animate_unfollowed(1) [OF this, of "0.033" 0 noDraws]
  have ra: "rainActive (animate 0.033 0 noDraws rainingScene)"
    unfolding rainingScene_views by (simp add: phaseOf_def Let_def)
  have s: "\<not> rainActive soakedScene" "wetness soakedScene = 1"
    "\<not> followedLands 0.033 0 soakedScene"
    using soakedScene_views by (simp_all add: phaseOf_def placeOf_def followedLands_def)
  have l: "rainActive lateFlightScene" "wetness lateFlightScene = 0.0495"
    "followedLands 0.033 0 lateFlightScene"
    using lateFlightScene_views by (simp_all add: phaseOf_def)
  show ?thesis
    using wetness_per_frame [where s = rainingScene and delta = "0.033" and elapsed = 0
        and rnd = noDraws]
      wetness_per_frame [where s = soakedScene and delta = "0.033" and elapsed = 0
        and rnd = noDraws]
      wetness_per_frame [where s = lateFlightScene and delta = "0.033" and elapsed = 0
        and rnd = noDraws]
      r ra s l soakedScene_reachable
    by simp
qed

end
